theory Spec2Isabelle
  imports Main "HOL-Library.Sublist"
begin

section \<open>Python values used by \<^verbatim>\<open>streamer.py\<close>\<close>

subsection \<open>Exceptions\<close>

text \<open>
  The exceptions that the library calls of the program can raise. \<^verbatim>\<open>KeyboardInterrupt\<close>
  derives from \<^verbatim>\<open>BaseException\<close> only, every other one from \<^verbatim>\<open>Exception\<close>, so a clause
  \<^verbatim>\<open>except Exception\<close> catches exactly the exceptions with \<open>is_Exception\<close>.
  A computation that can raise returns \<open>Inl\<close> of the exception.
\<close>

datatype py_exn =
    KeyboardInterrupt
  | ValueError
  | OverflowError
  | ZeroDivisionError
  | OSError
  | RequestException
  | HTTPError
  | CalledProcessError
  | TimeoutExpired
  | TypeError

fun is_Exception :: "py_exn \<Rightarrow> bool" where
  "is_Exception KeyboardInterrupt = False"
| "is_Exception _ = True"

subsection \<open>Strings\<close>

text \<open>
  Strings are ASCII strings: what Python does with characters beyond ASCII (other
  whitespace, other digits) is not modelled. \<open>py_in a b\<close> is \<^verbatim>\<open>a in b\<close>, \<open>py_remove c s\<close> is
  \<^verbatim>\<open>s.replace(c, '')\<close> for a one-character \<open>c\<close>, \<open>truthy s\<close> is the truth value of an
  optional string (\<^verbatim>\<open>None\<close> and \<^verbatim>\<open>''\<close> are false).
\<close>

fun py_in :: "string \<Rightarrow> string \<Rightarrow> bool" where
  "py_in a [] = (a = [])"
| "py_in a (c # cs) = (prefix a (c # cs) \<or> py_in a cs)"

definition py_remove :: "char \<Rightarrow> string \<Rightarrow> string" where
  "py_remove c s = filter (\<lambda>x. x \<noteq> c) s"

fun truthy :: "string option \<Rightarrow> bool" where
  "truthy None = False"
| "truthy (Some s) = (s \<noteq> [])"

subsection \<open>\<^verbatim>\<open>int(s)\<close> and \<^verbatim>\<open>str(i)\<close>\<close>

text \<open>
  \<^verbatim>\<open>int(s)\<close> on an ASCII string: whitespace on both sides is skipped, one sign is allowed,
  then at least one decimal digit, with single underscores allowed between digits.
  Anything else raises \<^verbatim>\<open>ValueError\<close>. (The interpreter's optional limit on the number of
  digits of the literal is not modelled.)
\<close>

definition is_space :: "char \<Rightarrow> bool" where
  "is_space c = (c \<in> set [CHR 0x09, CHR 0x0A, CHR 0x0B, CHR 0x0C, CHR 0x0D, CHR 0x20])"

definition is_digit :: "char \<Rightarrow> bool" where
  "is_digit c = (c \<in> set ''0123456789'')"

definition digit_value :: "char \<Rightarrow> int" where
  "digit_value c = of_char c - 48"

fun scan_digits :: "string \<Rightarrow> int \<Rightarrow> bool \<Rightarrow> (int \<times> string) option" where
  "scan_digits [] acc after_us = (if after_us then None else Some (acc, []))"
| "scan_digits (c # cs) acc after_us =
     (if is_digit c then scan_digits cs (10 * acc + digit_value c) False
      else if c = CHR ''_'' then (if after_us then None else scan_digits cs acc True)
      else if after_us then None else Some (acc, c # cs))"

definition split_sign :: "string \<Rightarrow> int \<times> string" where
  "split_sign s =
     (case s of
        [] \<Rightarrow> (1, s)
      | c # cs \<Rightarrow> if c = CHR ''+'' then (1, cs) else if c = CHR ''-'' then (- 1, cs) else (1, s))"

definition py_int :: "string \<Rightarrow> py_exn + int" where
  "py_int s =
     (case split_sign (dropWhile is_space s) of
        (sign, body) \<Rightarrow>
          (case body of
             [] \<Rightarrow> Inl ValueError
           | c # _ \<Rightarrow>
               if \<not> is_digit c then Inl ValueError
               else (case scan_digits body 0 False of
                       None \<Rightarrow> Inl ValueError
                     | Some (v, rest) \<Rightarrow>
                         if dropWhile is_space rest = [] then Inr (sign * v)
                         else Inl ValueError)))"

definition digit_char :: "int \<Rightarrow> char" where
  "digit_char d = ''0123456789'' ! nat d"

function str_digits :: "int \<Rightarrow> string" where
  "str_digits n =
     (if n < 10 then [digit_char n] else str_digits (n div 10) @ [digit_char (n mod 10)])"
  by pat_completeness auto
termination
  by (relation "measure nat") auto

declare str_digits.simps [simp del]

definition py_str :: "int \<Rightarrow> string" where
  "py_str i = (if i < 0 then CHR ''-'' # str_digits (- i) else str_digits i)"

subsection \<open>True division of integers and \<^verbatim>\<open>int(x)\<close> of a float\<close>

text \<open>
  \<^verbatim>\<open>a / b\<close> on two Python integers is the binary64 number nearest to the exact quotient
  (ties to even), \<^verbatim>\<open>ZeroDivisionError\<close> for \<^verbatim>\<open>b == 0\<close> and \<^verbatim>\<open>OverflowError\<close> when the
  rounded quotient does not fit a binary64. A finite float is kept as the dyadic number it
  denotes: \<open>Dyadic m e\<close> is \<open>m * 2 ^ e\<close>. \<^verbatim>\<open>int(x)\<close> truncates towards zero.
\<close>

datatype py_float = Dyadic int int

function bit_length :: "int \<Rightarrow> nat" where
  "bit_length n = (if n \<le> 0 then 0 else Suc (bit_length (n div 2)))"
  by pat_completeness auto
termination
  by (relation "measure nat") auto

declare bit_length.simps [simp del]

definition floor_log2_ratio :: "int \<Rightarrow> int \<Rightarrow> int" where
  \<comment> \<open>\<open>\<lfloor>log\<^sub>2 (p / q)\<rfloor>\<close> for positive \<open>p\<close> and \<open>q\<close>\<close>
  "floor_log2_ratio p q =
     (let d = int (bit_length p) - int (bit_length q)
      in if (if 0 \<le> d then q * 2 ^ nat d \<le> p else q \<le> p * 2 ^ nat (- d)) then d else d - 1)"

definition round_half_even :: "int \<Rightarrow> int \<Rightarrow> int" where
  \<comment> \<open>the integer nearest to \<open>p / q\<close> for \<open>q > 0\<close>, ties to the even one\<close>
  "round_half_even p q =
     (let f = p div q; r = p mod q
      in if 2 * r < q then f
         else if q < 2 * r then f + 1
         else if even f then f else f + 1)"

definition py_truediv :: "int \<Rightarrow> int \<Rightarrow> py_exn + py_float" where
  "py_truediv a b =
     (if b = 0 then Inl ZeroDivisionError
      else if a = 0 then Inr (Dyadic 0 0)
      else
        let sgn = (if (a < 0) = (b < 0) then 1 else - 1);
            p = \<bar>a\<bar>;
            q = \<bar>b\<bar>;
            e = max (floor_log2_ratio p q) (- 1022) - 52;
            m = (if 0 \<le> e then round_half_even p (q * 2 ^ nat e)
                 else round_half_even (p * 2 ^ nat (- e)) q)
        in if 0 \<le> e \<and> 2 ^ 1024 \<le> m * 2 ^ nat e then Inl OverflowError
           else Inr (Dyadic (sgn * m) e))"

fun py_int_of_float :: "py_float \<Rightarrow> int" where
  "py_int_of_float (Dyadic m e) =
     (if 0 \<le> e then m * 2 ^ nat e
      else if 0 \<le> m then m div 2 ^ nat (- e)
      else - ((- m) div 2 ^ nat (- e)))"

definition int_truediv :: "int \<Rightarrow> int \<Rightarrow> py_exn + int" where
  \<comment> \<open>\<^verbatim>\<open>int(a / b)\<close>\<close>
  "int_truediv a b =
     (case py_truediv a b of Inl e \<Rightarrow> Inl e | Inr x \<Rightarrow> Inr (py_int_of_float x))"

subsection \<open>The two shapes of regular expression the program searches for\<close>

text \<open>
  Every pattern of the program is a literal followed by one group \<^verbatim>\<open>([class]+)\<close>.
  \<open>re_search lit cls s\<close> is \<^verbatim>\<open>re.search\<close> for such a pattern, returning \<^verbatim>\<open>group(1)\<close> of the
  match: the leftmost position where the literal is followed by a character of the class,
  and there the longest run of characters of the class.
\<close>

definition id_char :: "char \<Rightarrow> bool" where
  \<comment> \<open>\<^verbatim>\<open>[a-zA-Z0-9_-]\<close>\<close>
  "id_char c =
     (c \<in> set ''abcdefghijklmnopqrstuvwxyzABCDEFGHIJKLMNOPQRSTUVWXYZ0123456789_-'')"

definition token_char :: "char \<Rightarrow> bool" where
  \<comment> \<open>\<^verbatim>\<open>[^&"]\<close>\<close>
  "token_char c = (c \<noteq> CHR ''&'' \<and> c \<noteq> CHR 0x22)"

definition match_here :: "string \<Rightarrow> (char \<Rightarrow> bool) \<Rightarrow> string \<Rightarrow> string option" where
  "match_here lit cls s =
     (if prefix lit s
      then (let g = takeWhile cls (drop (length lit) s) in if g = [] then None else Some g)
      else None)"

fun re_search :: "string \<Rightarrow> (char \<Rightarrow> bool) \<Rightarrow> string \<Rightarrow> string option" where
  "re_search lit cls [] = match_here lit cls []"
| "re_search lit cls (c # cs) =
     (case match_here lit cls (c # cs) of
        Some g \<Rightarrow> Some g
      | None \<Rightarrow> re_search lit cls cs)"

section \<open>The streamer object\<close>

record streamer =
  stream_key :: "string option"
  video_url :: "string option"
  quality :: string
  aspect_ratio :: string
  rtmp_url :: string
  video_file :: string
  max_retries :: nat
  retry_delay :: nat

definition getenv_default :: "(string \<rightharpoonup> string) \<Rightarrow> string \<Rightarrow> string \<Rightarrow> string" where
  "getenv_default env k d = (case env k of None \<Rightarrow> d | Some v \<Rightarrow> v)"

definition format_opt :: "string option \<Rightarrow> string" where
  \<comment> \<open>an optional string inside an f-string\<close>
  "format_opt v = (case v of None \<Rightarrow> ''None'' | Some s \<Rightarrow> s)"

definition init :: "(string \<rightharpoonup> string) \<Rightarrow> streamer" where
  "init env =
     \<lparr> stream_key = env ''YOUTUBE_STREAM_KEY'',
       video_url = env ''VIDEO_URL'',
       quality = getenv_default env ''VIDEO_QUALITY'' ''720p'',
       aspect_ratio = getenv_default env ''ASPECT_RATIO'' ''16:9'',
       rtmp_url = ''rtmp://a.rtmp.youtube.com/live2/'' @ format_opt (env ''YOUTUBE_STREAM_KEY''),
       video_file = ''video.mp4'',
       max_retries = 3,
       retry_delay = 5 \<rparr>"

section \<open>URL classifier\<close>

definition is_google_drive_url :: "string \<Rightarrow> bool" where
  "is_google_drive_url url = (py_in ''drive.google.com'' url \<or> py_in ''docs.google.com'' url)"

definition patterns :: "string list" where
  \<comment> \<open>the literal of each pattern; the group of each is \<^verbatim>\<open>([a-zA-Z0-9_-]+)\<close>\<close>
  "patterns = [''/file/d/'', ''id='', ''/open?id='', ''/d/'']"

fun first_match :: "string list \<Rightarrow> string \<Rightarrow> string option" where
  "first_match [] url = None"
| "first_match (p # ps) url =
     (case re_search p id_char url of
        Some g \<Rightarrow> Some g
      | None \<Rightarrow> first_match ps url)"

definition extract_gdrive_id :: "string \<Rightarrow> string option" where
  "extract_gdrive_id url = first_match patterns url"

section \<open>Encoding plan\<close>

text \<open>
  The values \<^verbatim>\<open>start_streaming\<close> derives from quality and aspect ratio before it starts the
  encoder: width, height, video bitrate, and the buffer size it passes as \<^verbatim>\<open>-bufsize\<close>.
\<close>

record encoding_plan =
  width :: int
  height :: int
  video_bitrate :: string
  bufsize :: string

definition bitrate_map :: "int \<rightharpoonup> string" where
  "bitrate_map =
     map_of [(360, ''800k''), (480, ''1200k''), (720, ''2500k''), (1080, ''4500k''),
             (1440, ''9000k''), (2160, ''20000k'')]"

definition raw_width :: "int \<Rightarrow> string \<Rightarrow> py_exn + int" where
  "raw_width h aspect =
     (if aspect = ''16:9'' then int_truediv (h * 16) 9
      else if aspect = ''9:16'' then int_truediv (h * 9) 16
      else if aspect = ''4:3'' then int_truediv (h * 4) 3
      else if aspect = ''1:1'' then Inr h
      else int_truediv (h * 16) 9)"

definition round_even :: "int \<Rightarrow> int" where
  "round_even w = (if w mod 2 = 0 then w else w + 1)"

definition derive_size :: "string \<Rightarrow> string \<Rightarrow> py_exn + (int \<times> int)" where
  "derive_size q aspect =
     (if py_in ''p'' q then
        (case py_int (py_remove (CHR ''p'') q) of
           Inl e \<Rightarrow> Inl e
         | Inr h \<Rightarrow>
             (case raw_width h aspect of
                Inl e \<Rightarrow> Inl e
              | Inr w \<Rightarrow> Inr (round_even w, h)))
      else Inr (1280, 720))"

definition derive_plan :: "string \<Rightarrow> string \<Rightarrow> py_exn + encoding_plan" where
  "derive_plan q aspect =
     (case derive_size q aspect of
        Inl e \<Rightarrow> Inl e
      | Inr (w, h) \<Rightarrow>
          (let vb = (case bitrate_map h of None \<Rightarrow> ''2500k'' | Some b \<Rightarrow> b)
           in case py_int (py_remove (CHR ''k'') vb) of
                Inl e \<Rightarrow> Inl e
              | Inr n \<Rightarrow>
                  Inr \<lparr> width = w, height = h, video_bitrate = vb,
                        bufsize = py_str (n * 2) @ ''k'' \<rparr>))"

definition ffmpeg_cmd :: "streamer \<Rightarrow> encoding_plan \<Rightarrow> string list" where
  "ffmpeg_cmd self plan =
     [''ffmpeg'', ''-stream_loop'', ''-1'', ''-re'', ''-i'', video_file self,
      ''-vf'',
      ''scale='' @ py_str (width plan) @ '':'' @ py_str (height plan)
        @ '':force_original_aspect_ratio=decrease,pad='' @ py_str (width plan) @ '':''
        @ py_str (height plan) @ '':(ow-iw)/2:(oh-ih)/2'',
      ''-c:v'', ''libx264'', ''-preset'', ''veryfast'',
      ''-b:v'', video_bitrate plan, ''-maxrate'', video_bitrate plan,
      ''-bufsize'', bufsize plan,
      ''-pix_fmt'', ''yuv420p'', ''-g'', ''60'', ''-c:a'', ''aac'', ''-b:a'', ''128k'',
      ''-ar'', ''44100'', ''-f'', ''flv'', rtmp_url self]"

section \<open>The outside world\<close>

text \<open>
  The program talks to HTTP servers, to the file system, to child processes and to the clock.
  Each call site that reaches outside runs at most once in a run of the program (the encoder
  and the delay once per attempt; the fallback strategy is called from three places, of which
  at most one is reached), so the world is one answer for every call site: what the call
  returns, or the exception it raises. The theorems hold for every world.
  Console output is left out, and so is everything that could go wrong in it.
\<close>

record response =
  cookies :: "(string \<times> string) list"  \<comment> \<open>\<^verbatim>\<open>response.cookies.items()\<close>, in order\<close>
  body_text :: string  \<comment> \<open>\<^verbatim>\<open>response.text\<close>\<close>
  content_type :: "string option"  \<comment> \<open>the header, if it is there\<close>
  content_length :: "string option"
  status_error :: bool  \<comment> \<open>whether \<^verbatim>\<open>raise_for_status()\<close> raises\<close>
  chunks :: "string list"  \<comment> \<open>what \<^verbatim>\<open>iter_content\<close> yields\<close>
  stream_error :: "py_exn option"  \<comment> \<open>raised by \<^verbatim>\<open>iter_content\<close> after the chunks\<close>

record completed =
  returncode :: int
  stdout :: string
  stderr :: string

record world =
  environ :: "string \<rightharpoonup> string"
  executable :: string  \<comment> \<open>\<^verbatim>\<open>sys.executable\<close>\<close>
  files0 :: "string \<rightharpoonup> nat"  \<comment> \<open>the size of every file that exists at the start\<close>
  gdrive_first :: "py_exn + response"
  gdrive_second :: "py_exn + response"
  direct_response :: "py_exn + response"
  open_error :: "py_exn option"  \<comment> \<open>raised by \<^verbatim>\<open>open(path, 'wb')\<close>\<close>
  pip_result :: "py_exn + completed"
  gdown_result :: "py_exn + completed"
  gdown_output :: "nat option"  \<comment> \<open>the size of the file gdown writes, if it writes one\<close>
  ffprobe_result :: "py_exn + completed"
  duration_parsed :: bool  \<comment> \<open>whether the output of ffprobe parses as a duration\<close>
  ffmpeg_result :: "nat \<Rightarrow> py_exn + completed"  \<comment> \<open>by value of \<^verbatim>\<open>attempt\<close>\<close>
  sleep_result :: "nat \<Rightarrow> py_exn option"  \<comment> \<open>raised by \<^verbatim>\<open>time.sleep\<close>, by \<^verbatim>\<open>attempt\<close>\<close>

text \<open>
  What a run changes: the files (only their sizes are read) and the sequence of requests,
  child processes and delays it has caused.
\<close>

datatype event =
    HttpGet string "(string \<times> string) list"  \<comment> \<open>URL and query parameters\<close>
  | Run "string list"
  | Sleep nat

fun is_launch :: "event \<Rightarrow> bool" where
  "is_launch (Run cmd) = True"
| "is_launch _ = False"

record state =
  files :: "string \<rightharpoonup> nat"
  trace :: "event list"

definition emit :: "event \<Rightarrow> state \<Rightarrow> state" where
  "emit ev s = s\<lparr>trace := trace s @ [ev]\<rparr>"

definition exists_file :: "state \<Rightarrow> string \<Rightarrow> bool" where
  "exists_file s path = (files s path \<noteq> None)"

definition getsize :: "state \<Rightarrow> string \<Rightarrow> py_exn + nat" where
  "getsize s path = (case files s path of None \<Rightarrow> Inl OSError | Some n \<Rightarrow> Inr n)"

definition try_except ::
  "('a \<Rightarrow> (py_exn + 'b) \<times> 'a) \<Rightarrow> (py_exn \<Rightarrow> 'a \<Rightarrow> (py_exn + 'b) \<times> 'a) \<Rightarrow> 'a \<Rightarrow> (py_exn + 'b) \<times> 'a"
  where
  \<comment> \<open>\<^verbatim>\<open>try: body  except Exception as e: handler\<close>\<close>
  "try_except body handler s =
     (case body s of
        (Inl e, s') \<Rightarrow> if is_Exception e then handler e s' else (Inl e, s')
      | (Inr v, s') \<Rightarrow> (Inr v, s'))"

definition content_length_int :: "response \<Rightarrow> py_exn + int" where
  \<comment> \<open>\<^verbatim>\<open>int(response.headers.get('content-length', 0))\<close>\<close>
  "content_length_int r = (case content_length r of None \<Rightarrow> Inr 0 | Some v \<Rightarrow> py_int v)"

definition stream_to_file :: "world \<Rightarrow> response \<Rightarrow> string \<Rightarrow> state \<Rightarrow> (py_exn + nat) \<times> state" where
  \<comment> \<open>the \<^verbatim>\<open>with open(...)\<close> block: returns \<^verbatim>\<open>downloaded\<close>\<close>
  "stream_to_file w r path s =
     (case open_error w of
        Some e \<Rightarrow> (Inl e, s)
      | None \<Rightarrow>
          (let downloaded = foldl (\<lambda>d chunk. if chunk \<noteq> [] then d + length chunk else d) 0 (chunks r);
               s' = s\<lparr>files := (files s)(path \<mapsto> downloaded)\<rparr>
           in case stream_error r of
                Some e \<Rightarrow> (Inl e, s')
              | None \<Rightarrow> (Inr downloaded, s')))"

section \<open>Acquisition engine\<close>

definition alternative_body ::
  "world \<Rightarrow> string \<Rightarrow> string \<Rightarrow> state \<Rightarrow> (py_exn + bool) \<times> state" where
  \<comment> \<open>the \<^verbatim>\<open>try\<close> block of \<^verbatim>\<open>download_gdrive_alternative\<close>\<close>
  "alternative_body w file_id output_path s =
     (let s1 = emit (Run [executable w, ''-m'', ''pip'', ''install'', ''gdown'', ''-q'']) s
      in case pip_result w of
           Inl e \<Rightarrow> (Inl e, s1)
         | Inr p \<Rightarrow>
             if returncode p \<noteq> 0 then (Inl CalledProcessError, s1)
             else
               let url = ''https://drive.google.com/uc?id='' @ file_id;
                   s2 = emit (Run [''gdown'', url, ''-O'', output_path, ''--fuzzy'']) s1;
                   s3 = (case gdown_output w of
                           None \<Rightarrow> s2
                         | Some n \<Rightarrow> s2\<lparr>files := (files s2)(output_path \<mapsto> n)\<rparr>)
               in case gdown_result w of
                    Inl e \<Rightarrow> (Inl e, s3)
                  | Inr result \<Rightarrow>
                      if returncode result = 0 \<and> exists_file s3 output_path then
                        (case getsize s3 output_path of
                           Inl e \<Rightarrow> (Inl e, s3)
                         | Inr file_size \<Rightarrow> (Inr (file_size > 10000), s3))
                      else (Inr False, s3))"

definition download_gdrive_alternative ::
  "world \<Rightarrow> string \<Rightarrow> string \<Rightarrow> state \<Rightarrow> (py_exn + bool) \<times> state" where
  "download_gdrive_alternative w file_id output_path =
     try_except (alternative_body w file_id output_path) (\<lambda>e s. (Inr False, s))"

definition cookie_token :: "(string \<times> string) list \<Rightarrow> string option" where
  \<comment> \<open>the loop over the cookies: the value of the first whose key starts with the prefix\<close>
  "cookie_token cs =
     (case filter (\<lambda>(key, value). prefix ''download_warning'' key) cs of
        [] \<Rightarrow> None
      | (key, value) # _ \<Rightarrow> Some value)"

definition confirm_token :: "response \<Rightarrow> string option" where
  "confirm_token r =
     (let token = cookie_token (cookies r)
      in if \<not> truthy token then
           (case re_search ''confirm='' token_char (body_text r) of
              Some g \<Rightarrow> Some g
            | None \<Rightarrow> token)
         else token)"

definition second_params :: "string \<Rightarrow> string option \<Rightarrow> (string \<times> string) list" where
  "second_params file_id token =
     (if truthy token then [(''id'', file_id), (''confirm'', format_opt token)]
      else [(''id'', file_id), (''confirm'', ''t'')])"

definition base_url :: string where
  "base_url = ''https://drive.google.com/uc?export=download''"

definition gdrive_body ::
  "world \<Rightarrow> string \<Rightarrow> string \<Rightarrow> state \<Rightarrow> (py_exn + bool) \<times> state" where
  \<comment> \<open>the \<^verbatim>\<open>try\<close> block of \<^verbatim>\<open>download_from_gdrive\<close>\<close>
  "gdrive_body w file_id output_path s =
     (let s1 = emit (HttpGet base_url [(''id'', file_id)]) s
      in case gdrive_first w of
           Inl e \<Rightarrow> (Inl e, s1)
         | Inr first \<Rightarrow>
             let params = second_params file_id (confirm_token first);
                 s2 = emit (HttpGet base_url params) s1
             in case gdrive_second w of
                  Inl e \<Rightarrow> (Inl e, s2)
                | Inr response \<Rightarrow>
                    if py_in ''text/html'' (case content_type response of None \<Rightarrow> [] | Some t \<Rightarrow> t)
                    then download_gdrive_alternative w file_id output_path s2
                    else
                      (case content_length_int response of
                         Inl e \<Rightarrow> (Inl e, s2)
                       | Inr total_size \<Rightarrow>
                           (case stream_to_file w response output_path s2 of
                              (Inl e, s3) \<Rightarrow> (Inl e, s3)
                            | (Inr downloaded, s3) \<Rightarrow>
                                (case getsize s3 output_path of
                                   Inl e \<Rightarrow> (Inl e, s3)
                                 | Inr file_size \<Rightarrow>
                                     if file_size < 10000
                                     then download_gdrive_alternative w file_id output_path s3
                                     else (Inr True, s3)))))"

definition download_from_gdrive ::
  "world \<Rightarrow> string \<Rightarrow> string \<Rightarrow> state \<Rightarrow> (py_exn + bool) \<times> state" where
  "download_from_gdrive w file_id output_path =
     try_except (gdrive_body w file_id output_path)
       (\<lambda>e s. download_gdrive_alternative w file_id output_path s)"

definition direct_body :: "world \<Rightarrow> string \<Rightarrow> string \<Rightarrow> state \<Rightarrow> (py_exn + bool) \<times> state" where
  \<comment> \<open>the \<^verbatim>\<open>try\<close> block of the \<^verbatim>\<open>else\<close> branch of \<^verbatim>\<open>download_video\<close>\<close>
  "direct_body w url path s =
     (let s1 = emit (HttpGet url []) s
      in case direct_response w of
           Inl e \<Rightarrow> (Inl e, s1)
         | Inr response \<Rightarrow>
             if status_error response then (Inl HTTPError, s1)
             else
               (case content_length_int response of
                  Inl e \<Rightarrow> (Inl e, s1)
                | Inr total_size \<Rightarrow>
                    (case stream_to_file w response path s1 of
                       (Inl e, s2) \<Rightarrow> (Inl e, s2)
                     | (Inr downloaded, s2) \<Rightarrow> (Inr True, s2))))"

definition download_direct :: "world \<Rightarrow> string \<Rightarrow> string \<Rightarrow> state \<Rightarrow> (py_exn + bool) \<times> state" where
  \<comment> \<open>the \<^verbatim>\<open>else\<close> branch of \<^verbatim>\<open>download_video\<close>\<close>
  "download_direct w url path = try_except (direct_body w url path) (\<lambda>e s. (Inr False, s))"

definition download_video :: "world \<Rightarrow> streamer \<Rightarrow> state \<Rightarrow> (py_exn + bool) \<times> state" where
  "download_video w self s =
     (case video_url self of
        None \<Rightarrow> (Inl TypeError, s)
      | Some url \<Rightarrow>
          if is_google_drive_url url then
            (let file_id = extract_gdrive_id url
             in if \<not> truthy file_id then (Inr False, s)
                else download_from_gdrive w (format_opt file_id) (video_file self) s)
          else download_direct w url (video_file self) s)"

section \<open>Media probe\<close>

definition probe_body :: "world \<Rightarrow> streamer \<Rightarrow> state \<Rightarrow> (py_exn + string option) \<times> state" where
  \<comment> \<open>the \<^verbatim>\<open>try\<close> block of \<^verbatim>\<open>get_video_duration\<close>\<close>
  "probe_body w self s =
     (let s1 = emit (Run [''ffprobe'', ''-v'', ''error'', ''-show_entries'', ''format=duration'',
                         ''-of'', ''default=noprint_wrappers=1:nokey=1'', video_file self]) s
      in case ffprobe_result w of
           Inl e \<Rightarrow> (Inl e, s1)
         | Inr result \<Rightarrow>
             if returncode result \<noteq> 0 then (Inr None, s1)
             else if duration_parsed w then (Inr (Some (stdout result)), s1)
             else (Inl ValueError, s1))"

definition get_video_duration :: "world \<Rightarrow> streamer \<Rightarrow> state \<Rightarrow> (py_exn + string option) \<times> state" where
  "get_video_duration w self = try_except (probe_body w self) (\<lambda>e s. (Inr None, s))"

section \<open>Stream supervisor\<close>

definition session_end :: "py_exn + completed \<Rightarrow> (py_exn + bool) option" where
  \<comment> \<open>the \<^verbatim>\<open>try\<close> statement of one session: \<open>Some r\<close> leaves the function with \<open>r\<close>,
      \<open>None\<close> goes on to the increment and the delay\<close>
  "session_end outcome =
     (case outcome of
        Inr process \<Rightarrow> None
      | Inl e \<Rightarrow>
          if e = KeyboardInterrupt then Some (Inr True)
          else if is_Exception e then None
          else Some (Inl e))"

function supervise ::
  "world \<Rightarrow> nat \<Rightarrow> string list \<Rightarrow> nat \<Rightarrow> state \<Rightarrow> (py_exn + bool) \<times> state" where
  "supervise w delay cmd attempt s =
     (if attempt < 999 then
        (let s1 = emit (Run cmd) s
         in case session_end (ffmpeg_result w attempt) of
              Some r \<Rightarrow> (r, s1)
            | None \<Rightarrow>
                (let s2 = emit (Sleep delay) s1
                 in case sleep_result w attempt of
                      Some e \<Rightarrow> (Inl e, s2)
                    | None \<Rightarrow> supervise w delay cmd (attempt + 1) s2))
      else (Inr True, s))"
  by pat_completeness auto
termination
  by (relation "measure (\<lambda>(w, delay, cmd, attempt, s). 999 - attempt)") auto

declare supervise.simps [simp del]

definition start_streaming :: "world \<Rightarrow> streamer \<Rightarrow> state \<Rightarrow> (py_exn + bool) \<times> state" where
  "start_streaming w self s =
     (case derive_plan (quality self) (aspect_ratio self) of
        Inl e \<Rightarrow> (Inl e, s)
      | Inr plan \<Rightarrow> supervise w (retry_delay self) (ffmpeg_cmd self plan) 0 s)"

section \<open>Run controller\<close>

definition run :: "world \<Rightarrow> streamer \<Rightarrow> state \<Rightarrow> (py_exn + bool) \<times> state" where
  "run w self s =
     (if \<not> truthy (stream_key self) then (Inr False, s)
      else if \<not> truthy (video_url self) then (Inr False, s)
      else
        (case download_video w self s of
           (Inl e, s1) \<Rightarrow> (Inl e, s1)
         | (Inr downloaded, s1) \<Rightarrow>
             if \<not> downloaded then (Inr False, s1)
             else if \<not> exists_file s1 (video_file self) then (Inr False, s1)
             else
               (case getsize s1 (video_file self) of
                  Inl e \<Rightarrow> (Inl e, s1)
                | Inr file_size \<Rightarrow>
                    if file_size < 10000 then (Inr False, s1)
                    else
                      (case get_video_duration w self s1 of
                         (Inl e, s2) \<Rightarrow> (Inl e, s2)
                       | (Inr duration, s2) \<Rightarrow>
                           (case start_streaming w self s2 of
                              (Inl e, s3) \<Rightarrow> (Inl e, s3)
                            | (Inr streamed, s3) \<Rightarrow> (Inr True, s3))))))"

definition initial_state :: "world \<Rightarrow> state" where
  "initial_state w = \<lparr> files = files0 w, trace = [] \<rparr>"

definition main :: "world \<Rightarrow> int \<times> state" where
  \<comment> \<open>the exit status of the process, and the state it leaves\<close>
  "main w =
     (case run w (init (environ w)) (initial_state w) of
        (Inr success, s) \<Rightarrow> (if success then 0 else 1, s)
      | (Inl e, s) \<Rightarrow> (if e = KeyboardInterrupt then 0 else 1, s))"

section \<open>Occurrences of a pattern\<close>

text \<open>
  What it means for a pattern, a literal followed by \<^verbatim>\<open>([class]+)\<close>, to match a string at
  position \<open>k\<close>, said without the search: the literal stands at position \<open>k\<close> and at least
  one character of the class follows it. This is the notion the claims about
  \<^verbatim>\<open>extract_gdrive_id\<close> are stated with; \<open>re_search\<close> above is what the program runs.
\<close>

definition matches_at :: "string \<Rightarrow> (char \<Rightarrow> bool) \<Rightarrow> string \<Rightarrow> nat \<Rightarrow> bool" where
  "matches_at lit cls s k =
     (prefix lit (drop k s) \<and>
      (case drop (k + length lit) s of [] \<Rightarrow> False | c # rest \<Rightarrow> cls c))"

section \<open>Example worlds\<close>

text \<open>
  Concrete worlds on which the theorems below are instantiated: a run that downloads a file
  from the large-file host, probes it, and streams it for two sessions before the operator
  stops it.
\<close>

definition ok_process :: completed where
  "ok_process = \<lparr> returncode = 0, stdout = ''12.5'', stderr = [] \<rparr>"

definition plain_response :: response where
  "plain_response =
     \<lparr> cookies = [], body_text = [], content_type = Some ''application/octet-stream'',
       content_length = None, status_error = False, chunks = [], stream_error = None \<rparr>"

definition example_world :: world where
  "example_world =
     \<lparr> environ = [''YOUTUBE_STREAM_KEY'' \<mapsto> ''abcd-efgh-ijkl-mnop'',
                  ''VIDEO_URL'' \<mapsto> ''https://drive.google.com/file/d/1AbC_d-9/view''],
       executable = ''/usr/bin/python3'',
       files0 = Map.empty,
       gdrive_first = Inr plain_response,
       gdrive_second = Inr (plain_response \<lparr> chunks := [replicate 20000 (CHR ''x'')] \<rparr>),
       direct_response = Inr (plain_response \<lparr> chunks := [replicate 20000 (CHR ''x'')] \<rparr>),
       open_error = None,
       pip_result = Inr ok_process,
       gdown_result = Inr ok_process,
       gdown_output = Some 20000,
       ffprobe_result = Inr ok_process,
       duration_parsed = True,
       ffmpeg_result = (\<lambda>attempt. if attempt < 2 then Inr (ok_process \<lparr> returncode := 1 \<rparr>)
                                  else Inl KeyboardInterrupt),
       sleep_result = (\<lambda>attempt. None) \<rparr>"

definition empty_state :: state where
  "empty_state = \<lparr> files = Map.empty, trace = [] \<rparr>"

text \<open>Variants: the large-file host, the fallback tool or a direct URL delivers \<open>n\<close> bytes.\<close>

definition bytes :: "nat \<Rightarrow> string list" where
  "bytes n = [replicate n (CHR ''x'')]"



definition direct_world :: "nat \<Rightarrow> world" where
  "direct_world n =
     example_world
       \<lparr> environ := [''YOUTUBE_STREAM_KEY'' \<mapsto> ''abcd-efgh-ijkl-mnop'',
                     ''VIDEO_URL'' \<mapsto> ''http://example.com/v.mp4''],
         direct_response := Inr (plain_response \<lparr> chunks := bytes n \<rparr>) \<rparr>"

text \<open>A world in which the encoder exits every time it is started and nobody interrupts.\<close>

definition unattended_world :: world where
  "unattended_world = example_world \<lparr> ffmpeg_result := (\<lambda>attempt. Inr (ok_process \<lparr> returncode := 1 \<rparr>)) \<rparr>"

text \<open>Worlds in which the run fails: no stream key is configured; the server cannot be reached.\<close>

definition keyless_world :: world where
  "keyless_world = example_world \<lparr> environ := [''VIDEO_URL'' \<mapsto> ''http://example.com/v.mp4''] \<rparr>"

definition offline_world :: world where
  "offline_world = direct_world 0 \<lparr> direct_response := Inl RequestException \<rparr>"









text \<open>A world with a quality setting that is not a number.\<close>

definition bad_quality_world :: world where
  "bad_quality_world =
     direct_world 20000
       \<lparr> environ := [''YOUTUBE_STREAM_KEY'' \<mapsto> ''abcd-efgh-ijkl-mnop'',
                     ''VIDEO_URL'' \<mapsto> ''http://example.com/v.mp4'',
                     ''VIDEO_QUALITY'' \<mapsto> ''hdp''] \<rparr>"

section \<open>Properties\<close>

subsection \<open>Auxiliary facts about the acquisition engine\<close>



lemma files_emit [simp]: "files (emit ev s) = files s"
  by (simp add: emit_def)









lemma run_after_download:
  assumes "truthy (stream_key self)" and "truthy (video_url self)"
    and "download_video w self s = (Inr True, s1)"
    and "files s1 (video_file self) = Some n"
  shows "run w self s =
           (if n < 10000 then (Inr False, s1)
            else (case get_video_duration w self s1 of
                    (Inl e, s2) \<Rightarrow> (Inl e, s2)
                  | (Inr duration, s2) \<Rightarrow>
                      (case start_streaming w self s2 of
                         (Inl e, s3) \<Rightarrow> (Inl e, s3)
                       | (Inr streamed, s3) \<Rightarrow> (Inr True, s3))))"
  using assms by (simp add: run_def exists_file_def getsize_def)


subsection \<open>Auxiliary facts about substring tests and pattern search\<close>

lemma py_in_sublist: "py_in a b = sublist a b"
  by (induction b) (auto simp: sublist_Cons_right)

lemma py_in_iff: "py_in a b \<longleftrightarrow> (\<exists>pre suf. b = pre @ a @ suf)"
  by (simp add: py_in_sublist sublist_def)

lemma match_here_nonempty: "match_here lit cls s = Some g \<Longrightarrow> g \<noteq> []"
  by (auto simp: match_here_def Let_def split: if_splits)

lemma re_search_nonempty: "re_search lit cls s = Some g \<Longrightarrow> g \<noteq> []"
  by (induction s) (auto split: option.splits dest: match_here_nonempty)

lemma first_match_nonempty: "first_match ps url = Some g \<Longrightarrow> g \<noteq> []"
  by (induction ps) (auto split: option.splits dest: re_search_nonempty)

lemma truthy_extract_gdrive_id: "truthy (extract_gdrive_id url) \<longleftrightarrow> extract_gdrive_id url \<noteq> None"
  by (cases "extract_gdrive_id url") (auto simp: extract_gdrive_id_def dest: first_match_nonempty)

subsection \<open>Auxiliary facts about the supervision loop\<close>

lemma session_end_None_iff:
  "session_end outcome = None \<longleftrightarrow> outcome \<noteq> Inl KeyboardInterrupt"
  by (cases outcome) (auto simp: session_end_def elim: is_Exception.elims)

lemma supervise_restart:
  assumes "attempt < 999" and "ffmpeg_result w attempt \<noteq> Inl KeyboardInterrupt"
    and "sleep_result w attempt = None"
  shows "supervise w delay cmd attempt s =
           supervise w delay cmd (Suc attempt) (s\<lparr>trace := trace s @ [Run cmd, Sleep delay]\<rparr>)"
  using assms
  by (subst supervise.simps) (simp add: session_end_None_iff [THEN iffD2] emit_def)

lemma supervise_cancel:
  assumes "attempt < 999" and "ffmpeg_result w attempt = Inl KeyboardInterrupt"
  shows "supervise w delay cmd attempt s = (Inr True, s\<lparr>trace := trace s @ [Run cmd]\<rparr>)"
  using assms
  by (subst supervise.simps) (simp add: session_end_def emit_def)

text \<open>
  An interrupt that arrives during the delay, not during a session, is outside the
  \<^verbatim>\<open>try\<close> statement: it leaves \<^verbatim>\<open>start_streaming\<close> as an exception, which \<^verbatim>\<open>main\<close> turns
  into exit status 0.
\<close>

lemma supervise_interrupted_delay:
  assumes "attempt < 999" and "ffmpeg_result w attempt \<noteq> Inl KeyboardInterrupt"
    and "sleep_result w attempt = Some e"
  shows "supervise w delay cmd attempt s = (Inl e, s\<lparr>trace := trace s @ [Run cmd, Sleep delay]\<rparr>)"
  using assms
  by (subst supervise.simps) (simp add: session_end_None_iff [THEN iffD2] emit_def)

lemma supervise_ceiling: "supervise w delay cmd 999 s = (Inr True, s)"
  by (subst supervise.simps) simp

lemma supervise_restarts:
  assumes "attempt + k \<le> 999"
    and "\<forall>i. attempt \<le> i \<and> i < attempt + k \<longrightarrow>
           ffmpeg_result w i \<noteq> Inl KeyboardInterrupt \<and> sleep_result w i = None"
  shows "supervise w delay cmd attempt s =
           supervise w delay cmd (attempt + k)
             (s\<lparr>trace := trace s @ concat (replicate k [Run cmd, Sleep delay])\<rparr>)"
  using assms
proof (induction k arbitrary: attempt s)
  case 0
  then show ?case by simp
next
  case (Suc k)
  from Suc.prems have first: "attempt < 999"
    "ffmpeg_result w attempt \<noteq> Inl KeyboardInterrupt" "sleep_result w attempt = None"
    by auto
  from Suc.prems have rest: "Suc attempt + k \<le> 999"
    "\<forall>i. Suc attempt \<le> i \<and> i < Suc attempt + k \<longrightarrow>
       ffmpeg_result w i \<noteq> Inl KeyboardInterrupt \<and> sleep_result w i = None"
    by auto
  show ?case
    by (simp add: supervise_restart [OF first] Suc.IH [OF rest])
qed

lemma supervise_launch_bound:
  "length (filter is_launch (trace (snd (supervise w delay cmd attempt s))))
     \<le> length (filter is_launch (trace s)) + (999 - attempt)"
proof (induction w delay cmd attempt s rule: supervise.induct)
  case (1 w delay cmd attempt s)
  show ?case
  proof (cases "attempt < 999")
    case False
    then show ?thesis by (subst supervise.simps) simp
  next
    case True
    note lt = this
    show ?thesis
    proof (cases "session_end (ffmpeg_result w attempt)")
      case (Some r)
      with lt show ?thesis by (subst supervise.simps) (simp add: emit_def)
    next
      case None
      note se = this
      show ?thesis
      proof (cases "sleep_result w attempt")
        case (Some e)
        with lt se show ?thesis by (subst supervise.simps) (simp add: emit_def)
      next
        case None
        from "1.IH" [OF lt refl se refl None]
        have "length (filter is_launch (trace (snd (supervise w delay cmd (attempt + 1)
                 (emit (Sleep delay) (emit (Run cmd) s))))))
              \<le> length (filter is_launch (trace (emit (Sleep delay) (emit (Run cmd) s))))
                  + (999 - (attempt + 1))" .
        with lt se None show ?thesis
          by (subst supervise.simps) (simp add: emit_def)
      qed
    qed
  qed
qed

lemma start_streaming_deliberate_stop:
  assumes "derive_plan (quality self) (aspect_ratio self) = Inr plan" and "N \<le> 999"
    and "\<forall>i<N. ffmpeg_result w i \<noteq> Inl KeyboardInterrupt \<and> sleep_result w i = None"
    and "N < 999 \<longrightarrow> ffmpeg_result w N = Inl KeyboardInterrupt"
  shows "fst (start_streaming w self s) = Inr True"
proof -
  let ?cmd = "ffmpeg_cmd self plan" and ?d = "retry_delay self"
  let ?s' = "s\<lparr>trace := trace s @ concat (replicate N [Run ?cmd, Sleep ?d])\<rparr>"
  from assms have steps: "supervise w ?d ?cmd 0 s = supervise w ?d ?cmd (0 + N) ?s'"
    by (intro supervise_restarts) auto
  have "fst (supervise w ?d ?cmd N ?s') = Inr True"
  proof (cases "N < 999")
    case True
    with assms show ?thesis by (simp add: supervise_cancel)
  next
    case False
    with assms have "N = 999" by simp
    then show ?thesis by (simp add: supervise_ceiling)
  qed
  with steps assms(1) show ?thesis
    by (simp add: start_streaming_def)
qed





subsection \<open>Auxiliary facts about requests and cookies\<close>










subsection \<open>Auxiliary facts about the encoding plan\<close>

lemma py_in_char: "py_in [c] s \<longleftrightarrow> c \<in> set s"
  by (induction s) auto

lemma round_even_even: "even (round_even w)"
  by (auto simp: round_even_def)

lemma round_even_eq: "round_even w = (if even w then w else w + 1)"
  by (auto simp: round_even_def)

lemma bitrate_suffix_parses:
  "\<exists>n. py_int (py_remove (CHR ''k'') (case bitrate_map h of None \<Rightarrow> ''2500k'' | Some b \<Rightarrow> b)) = Inr n"
proof -
  have "(case bitrate_map h of None \<Rightarrow> ''2500k'' | Some b \<Rightarrow> b)
          \<in> {''800k'', ''1200k'', ''2500k'', ''4500k'', ''9000k'', ''20000k''}"
    by (simp add: bitrate_map_def)
  moreover have "py_int (py_remove (CHR ''k'') ''800k'') = Inr 800"
    "py_int (py_remove (CHR ''k'') ''1200k'') = Inr 1200"
    "py_int (py_remove (CHR ''k'') ''2500k'') = Inr 2500"
    "py_int (py_remove (CHR ''k'') ''4500k'') = Inr 4500"
    "py_int (py_remove (CHR ''k'') ''9000k'') = Inr 9000"
    "py_int (py_remove (CHR ''k'') ''20000k'') = Inr 20000"
    by code_simp+
  ultimately show ?thesis by auto
qed

lemma derive_plan_of_size:
  assumes "derive_size q a = Inr (w, h)"
  shows "\<exists>plan. derive_plan q a = Inr plan \<and> width plan = w \<and> height plan = h"
  using assms bitrate_suffix_parses [of h]
  by (auto simp: derive_plan_def Let_def)

lemma derive_plan_size:
  assumes "derive_plan q a = Inr plan"
  shows "derive_size q a = Inr (width plan, height plan)"
  using assms
  by (auto simp: derive_plan_def Let_def split: sum.splits prod.splits)

lemma derive_size_even:
  assumes "derive_size q a = Inr (w, h)"
  shows "even w"
  using assms
  by (auto simp: derive_size_def round_even_even split: if_splits sum.splits)

subsection \<open>Auxiliary facts about numbers\<close>

lemma is_digit_value: "is_digit c \<Longrightarrow> 0 \<le> digit_value c \<and> digit_value c \<le> 9"
  by (auto simp: is_digit_def digit_value_def)

lemma is_digit_not_special:
  "is_digit c \<Longrightarrow> c \<noteq> CHR ''p'' \<and> c \<noteq> CHR ''_'' \<and> c \<noteq> CHR ''+'' \<and> c \<noteq> CHR ''-'' \<and> \<not> is_space c"
  by (auto simp: is_digit_def is_space_def)

lemma scan_digits_all_digits:
  "list_all is_digit ds \<Longrightarrow>
     scan_digits ds acc False = Some (foldl (\<lambda>v c. 10 * v + digit_value c) acc ds, [])"
  by (induction ds arbitrary: acc) simp_all

lemma py_int_digits:
  assumes "ds \<noteq> []" and "list_all is_digit ds"
  shows "py_int ds = Inr (foldl (\<lambda>v c. 10 * v + digit_value c) 0 ds)"
proof -
  from assms obtain c cs where ds: "ds = c # cs" and c: "is_digit c"
    by (cases ds) auto
  from c have dw: "dropWhile is_space ds = ds" and sg: "split_sign ds = (1, ds)"
    using is_digit_not_special [of c] by (simp_all add: ds split_sign_def)
  have sc: "scan_digits ds 0 False = Some (foldl (\<lambda>v c. 10 * v + digit_value c) 0 ds, [])"
    by (rule scan_digits_all_digits [OF assms(2)])
  show ?thesis
    unfolding py_int_def dw sg
    using c by (simp add: ds sc [unfolded ds] del: scan_digits.simps)
qed

lemma digits_value_bounds:
  "list_all is_digit ds \<Longrightarrow> 0 \<le> acc \<Longrightarrow>
     0 \<le> foldl (\<lambda>v c. 10 * v + digit_value c) acc ds \<and>
     foldl (\<lambda>v c. 10 * v + digit_value c) acc ds < (acc + 1) * 10 ^ length ds"
proof (induction ds arbitrary: acc)
  case Nil
  then show ?case by simp
next
  case (Cons c cs)
  from Cons.prems have d: "0 \<le> digit_value c" "digit_value c \<le> 9"
    using is_digit_value [of c] by simp_all
  with Cons.prems have acc': "0 \<le> 10 * acc + digit_value c"
    by simp
  from Cons.IH [OF _ acc'] Cons.prems
  have ih: "0 \<le> foldl (\<lambda>v c. 10 * v + digit_value c) (10 * acc + digit_value c) cs"
    "foldl (\<lambda>v c. 10 * v + digit_value c) (10 * acc + digit_value c) cs
       < (10 * acc + digit_value c + 1) * 10 ^ length cs"
    by simp_all
  from d have "(10 * acc + digit_value c + 1) * 10 ^ length cs \<le> (10 * acc + 10) * (10 ^ length cs :: int)"
    by (intro mult_right_mono) simp_all
  with ih(2)
  have "foldl (\<lambda>v c. 10 * v + digit_value c) (10 * acc + digit_value c) cs
          < (10 * acc + 10) * 10 ^ length cs"
    by (rule less_le_trans)
  moreover have "(10 * acc + 10) * (10 ^ length cs :: int) = (acc + 1) * 10 ^ length (c # cs)"
    by (simp add: algebra_simps)
  ultimately show ?case
    using ih(1) by simp
qed

lemma bit_length_le: "n < 2 ^ k \<Longrightarrow> bit_length n \<le> k"
proof (induction k arbitrary: n)
  case 0
  then show ?case by (subst bit_length.simps) simp
next
  case (Suc k)
  show ?case
  proof (cases "n \<le> 0")
    case True
    then show ?thesis by (subst bit_length.simps) simp
  next
    case False
    from Suc.prems have "n div 2 < 2 ^ k" by simp
    then have "bit_length (n div 2) \<le> k" by (rule Suc.IH)
    with False show ?thesis by (subst bit_length.simps) simp
  qed
qed

lemma floor_log2_ratio_le: "floor_log2_ratio p q \<le> int (bit_length p)"
  by (simp add: floor_log2_ratio_def Let_def)

lemma round_half_even_le: "round_half_even p q \<le> p div q + 1"
  by (simp add: round_half_even_def Let_def)

lemma py_truediv_total:
  assumes "0 \<le> a" and "a < 2 ^ 1020" and "0 < b"
  shows "\<exists>x. py_truediv a b = Inr x"
proof (cases "a = 0")
  case True
  with assms show ?thesis by (simp add: py_truediv_def)
next
  case False
  define e where "e = max (floor_log2_ratio \<bar>a\<bar> \<bar>b\<bar>) (- 1022) - 52"
  define m where "m = (if 0 \<le> e then round_half_even \<bar>a\<bar> (\<bar>b\<bar> * 2 ^ nat e)
                       else round_half_even (\<bar>a\<bar> * 2 ^ nat (- e)) \<bar>b\<bar>)"
  have no_overflow: "\<not> (0 \<le> e \<and> 2 ^ 1024 \<le> m * 2 ^ nat e)"
  proof
    assume h: "0 \<le> e \<and> 2 ^ 1024 \<le> m * 2 ^ nat e"
    from assms have "bit_length \<bar>a\<bar> \<le> 1020"
      by (intro bit_length_le) simp
    with floor_log2_ratio_le [of "\<bar>a\<bar>" "\<bar>b\<bar>"] have "e \<le> 968"
      by (simp add: e_def)
    with h have "nat e \<le> 968" by simp
    then have pow: "(2::int) ^ nat e \<le> 2 ^ 968"
      by (intro power_increasing) simp_all
    have pos: "(0::int) < 2 ^ nat e" by simp
    from assms have "1 \<le> b" by simp
    then have "2 ^ nat e \<le> b * 2 ^ nat e"
      using pos by (simp add: mult_le_cancel_right1)
    then have "a div (b * 2 ^ nat e) \<le> a div 2 ^ nat e"
      using assms pos by (intro zdiv_mono2) simp_all
    then have "a div (b * 2 ^ nat e) * 2 ^ nat e \<le> a div 2 ^ nat e * 2 ^ nat e"
      using pos by (simp add: mult_right_mono)
    also have "\<dots> \<le> a"
      using pos by (metis mult.commute pos_mod_sign mult_div_mod_eq le_add_same_cancel1)
    finally have base: "a div (b * 2 ^ nat e) * 2 ^ nat e \<le> a" .
    from h assms have "m \<le> a div (b * 2 ^ nat e) + 1"
      using round_half_even_le [of a "b * 2 ^ nat e"] by (simp add: m_def)
    then have "m * 2 ^ nat e \<le> (a div (b * 2 ^ nat e) + 1) * 2 ^ nat e"
      using pos by (simp add: mult_right_mono)
    also have "\<dots> = a div (b * 2 ^ nat e) * 2 ^ nat e + 2 ^ nat e"
      by (simp add: algebra_simps)
    also have "\<dots> \<le> a + 2 ^ 968"
      using base pow by simp
    also have "\<dots> < 2 ^ 1020 + 2 ^ 968"
      using assms by simp
    also have "\<dots> < (2::int) ^ 1024"
      by simp
    finally show False
      using h by simp
  qed
  have "py_truediv a b =
          (if 0 \<le> e \<and> 2 ^ 1024 \<le> m * 2 ^ nat e then Inl OverflowError
           else Inr (Dyadic ((if (a < 0) = (b < 0) then 1 else - 1) * m) e))"
    unfolding py_truediv_def Let_def e_def [symmetric] m_def [symmetric]
    using False assms(3) by simp
  with no_overflow show ?thesis
    by simp
qed

lemma int_truediv_total:
  assumes "0 \<le> a" and "a < 2 ^ 1020" and "0 < b"
  shows "\<exists>w. int_truediv a b = Inr w"
  using py_truediv_total [OF assms] by (auto simp: int_truediv_def)

lemma raw_width_total:
  assumes "0 \<le> h" and "h < 10 ^ 300"
  shows "\<exists>w. raw_width h a = Inr w"
proof -
  have "(10::int) ^ 300 * 16 < 2 ^ 1020" by simp
  with assms have "h * 16 < 2 ^ 1020" "h * 9 < 2 ^ 1020" "h * 4 < 2 ^ 1020"
    by simp_all
  with assms(1) show ?thesis
    by (simp add: raw_width_def int_truediv_total)
qed

subsection \<open>Auxiliary facts about the search\<close>

lemma takeWhile_nonempty: "takeWhile P xs \<noteq> [] \<longleftrightarrow> (case xs of [] \<Rightarrow> False | x # _ \<Rightarrow> P x)"
  by (cases xs) auto

lemma match_here_None_iff: "match_here lit cls s = None \<longleftrightarrow> \<not> matches_at lit cls s 0"
  by (auto simp: match_here_def matches_at_def Let_def takeWhile_nonempty split: list.splits)

lemma matches_at_Cons: "matches_at lit cls (c # cs) (Suc k) = matches_at lit cls cs k"
  by (simp add: matches_at_def)

lemma re_search_None_iff:
  "re_search lit cls s = None \<longleftrightarrow> (\<forall>k<length s. \<not> matches_at lit cls s k)"
proof (induction s)
  case Nil
  then show ?case by (simp add: match_here_def)
next
  case (Cons c cs)
  have "(\<forall>k<length (c # cs). \<not> matches_at lit cls (c # cs) k) \<longleftrightarrow>
          \<not> matches_at lit cls (c # cs) 0 \<and> (\<forall>k<length cs. \<not> matches_at lit cls cs k)"
    by (auto simp: All_less_Suc2 matches_at_Cons)
  moreover have "re_search lit cls (c # cs) = None \<longleftrightarrow>
          match_here lit cls (c # cs) = None \<and> re_search lit cls cs = None"
    by (simp split: option.splits)
  ultimately show ?case
    using Cons.IH by (simp only: match_here_None_iff)
qed

lemma re_search_skip:
  assumes "\<forall>k<length pre. \<not> matches_at lit cls (pre @ rest) k"
  shows "re_search lit cls (pre @ rest) = re_search lit cls rest"
  using assms
proof (induction pre)
  case Nil
  then show ?case by simp
next
  case (Cons c pre)
  from Cons.prems have here: "match_here lit cls (c # pre @ rest) = None"
    by (auto simp: match_here_None_iff)
  from Cons.prems have "\<forall>k<length pre. \<not> matches_at lit cls (pre @ rest) k"
    using matches_at_Cons [of lit cls c "pre @ rest"] by auto
  then have "re_search lit cls (pre @ rest) = re_search lit cls rest"
    by (rule Cons.IH)
  with here show ?case by simp
qed

lemma match_here_group:
  assumes "g \<noteq> []" and "\<forall>c\<in>set g. cls c" and "suf = [] \<or> \<not> cls (hd suf)"
  shows "match_here lit cls (lit @ g @ suf) = Some g"
proof -
  from assms(2,3) have "takeWhile cls (g @ suf) = g"
    by (cases suf) (auto simp: takeWhile_append2)
  with assms(1) show ?thesis
    by (simp add: match_here_def)
qed

lemma re_search_group:
  assumes "g \<noteq> []" and "\<forall>c\<in>set g. cls c" and "suf = [] \<or> \<not> cls (hd suf)"
  shows "re_search lit cls (lit @ g @ suf) = Some g"
proof (cases "lit @ g @ suf")
  case Nil
  with assms(1) show ?thesis by simp
next
  case (Cons c cs)
  from match_here_group [OF assms, of lit] Cons show ?thesis
    by simp
qed

lemma re_search_leftmost:
  assumes "s = pre @ lit @ g @ suf"
    and "g \<noteq> []" and "\<forall>c\<in>set g. cls c" and "suf = [] \<or> \<not> cls (hd suf)"
    and "\<forall>k<length pre. \<not> matches_at lit cls s k"
  shows "re_search lit cls s = Some g"
  using re_search_skip [of pre lit cls "lit @ g @ suf"] re_search_group [OF assms(2-4), of lit] assms(1,5)
  by simp

lemma first_match_index:
  assumes "i < length ps" and "re_search (ps ! i) id_char url = Some g"
    and "\<forall>j<i. re_search (ps ! j) id_char url = None"
  shows "first_match ps url = Some g"
  using assms
proof (induction ps arbitrary: i)
  case Nil
  then show ?case by simp
next
  case (Cons p ps)
  show ?case
  proof (cases i)
    case 0
    with Cons.prems show ?thesis by simp
  next
    case (Suc i')
    with Cons.prems have "re_search p id_char url = None"
      by auto
    moreover from Suc Cons.prems have "first_match ps url = Some g"
      by (intro Cons.IH [of i']) auto
    ultimately show ?thesis by simp
  qed
qed

lemma first_match_None_iff:
  "first_match ps url = None \<longleftrightarrow> (\<forall>j<length ps. re_search (ps ! j) id_char url = None)"
proof (induction ps)
  case Nil
  then show ?case by simp
next
  case (Cons p ps)
  have "first_match (p # ps) url = None \<longleftrightarrow>
          re_search p id_char url = None \<and> first_match ps url = None"
    by (simp split: option.splits)
  with Cons.IH show ?case
    by (auto simp: All_less_Suc2)
qed

text \<open>
  A remark on the third pattern: wherever \<^verbatim>\<open>/open\?id=([a-zA-Z0-9_-]+)\<close> matches, the second
  pattern \<^verbatim>\<open>id=([a-zA-Z0-9_-]+)\<close> matches six characters later, so the third pattern is never
  the first one to match.
\<close>

lemma open_id_pattern_shadowed:
  assumes "matches_at ''/open?id='' id_char url k"
  shows "matches_at ''id='' id_char url (k + 6)"
proof -
  have len: "length ''/open?id='' = 9" "length ''id='' = 3"
    by simp_all
  from assms have tail: "case drop (k + 9) url of [] \<Rightarrow> False | c # x \<Rightarrow> id_char c"
    unfolding matches_at_def len by simp
  from assms obtain rest where r: "drop k url = ''/open?id='' @ rest"
    by (auto simp: matches_at_def prefix_def)
  have "drop (k + 6) url = drop 6 (drop k url)"
    by (simp add: add.commute)
  with r have "prefix ''id='' (drop (k + 6) url)"
    by simp
  moreover have "k + 6 + 3 = k + 9"
    by simp
  ultimately show ?thesis
    unfolding matches_at_def len using tail by (simp add: add.commute)
qed

subsection \<open>Undersized downloads\<close>



subsection \<open>The restart loop\<close>

text \<open>
  Claim C2. Let the encoding plan be derivable and \<open>N < 999\<close>. If the first \<open>N\<close> sessions of
  the encoder end without an interrupt (the encoder exits with any status, or starting it
  raises an error), each delay runs to its end, and session \<open>N\<close> is interrupted by the
  operator, then \<^verbatim>\<open>start_streaming\<close> returns \<^verbatim>\<open>True\<close> and what it has done is exactly:
  \<open>N\<close> times the encoder followed by a delay of \<^verbatim>\<open>retry_delay\<close> seconds, and then the encoder
  once more, that is \<open>N\<close> restarts and nothing after the interrupt. If no session among the
  first 999 is interrupted, it stops after 999 sessions and returns \<^verbatim>\<open>True\<close> as well.
  \<^verbatim>\<open>retry_delay\<close> is 5 for every streamer object, and in no world does \<^verbatim>\<open>start_streaming\<close>
  start the encoder more than 999 times. The interrupt of the claim is the one the
  supervisor handles, an interrupt of a running session.
\<close>

theorem restart_loop_counts:
  "(\<forall>w self s plan N.
      derive_plan (quality self) (aspect_ratio self) = Inr plan \<and> N < 999 \<and>
      (\<forall>i<N. ffmpeg_result w i \<noteq> Inl KeyboardInterrupt \<and> sleep_result w i = None) \<and>
      ffmpeg_result w N = Inl KeyboardInterrupt
      \<longrightarrow> start_streaming w self s =
            (Inr True,
             s\<lparr>trace := trace s
                  @ concat (replicate N [Run (ffmpeg_cmd self plan), Sleep (retry_delay self)])
                  @ [Run (ffmpeg_cmd self plan)]\<rparr>))
   \<and> (\<forall>w self s plan.
      derive_plan (quality self) (aspect_ratio self) = Inr plan \<and>
      (\<forall>i<999. ffmpeg_result w i \<noteq> Inl KeyboardInterrupt \<and> sleep_result w i = None)
      \<longrightarrow> start_streaming w self s =
            (Inr True,
             s\<lparr>trace := trace s
                  @ concat (replicate 999 [Run (ffmpeg_cmd self plan), Sleep (retry_delay self)])\<rparr>))
   \<and> (\<forall>env. retry_delay (init env) = 5)
   \<and> (\<forall>w self s.
        length (filter is_launch (trace (snd (start_streaming w self s))))
          \<le> length (filter is_launch (trace s)) + 999)"
proof (intro conjI allI; (intro impI)?)
  fix w :: world and self :: streamer and s :: state and plan N
  assume h: "derive_plan (quality self) (aspect_ratio self) = Inr plan \<and> N < 999 \<and>
      (\<forall>i<N. ffmpeg_result w i \<noteq> Inl KeyboardInterrupt \<and> sleep_result w i = None) \<and>
      ffmpeg_result w N = Inl KeyboardInterrupt"
  let ?cmd = "ffmpeg_cmd self plan" and ?d = "retry_delay self"
  let ?s' = "s\<lparr>trace := trace s @ concat (replicate N [Run ?cmd, Sleep ?d])\<rparr>"
  from h have "supervise w ?d ?cmd 0 s = supervise w ?d ?cmd (0 + N) ?s'"
    by (intro supervise_restarts) auto
  also from h have "supervise w ?d ?cmd (0 + N) ?s' = (Inr True, ?s'\<lparr>trace := trace ?s' @ [Run ?cmd]\<rparr>)"
    by (simp add: supervise_cancel)
  finally show "start_streaming w self s =
            (Inr True,
             s\<lparr>trace := trace s @ concat (replicate N [Run ?cmd, Sleep ?d]) @ [Run ?cmd]\<rparr>)"
    using h by (simp add: start_streaming_def)
next
  fix w :: world and self :: streamer and s :: state and plan
  assume h: "derive_plan (quality self) (aspect_ratio self) = Inr plan \<and>
      (\<forall>i<999. ffmpeg_result w i \<noteq> Inl KeyboardInterrupt \<and> sleep_result w i = None)"
  let ?cmd = "ffmpeg_cmd self plan" and ?d = "retry_delay self"
  let ?s' = "s\<lparr>trace := trace s @ concat (replicate 999 [Run ?cmd, Sleep ?d])\<rparr>"
  from h have "supervise w ?d ?cmd 0 s = supervise w ?d ?cmd (0 + 999) ?s'"
    by (intro supervise_restarts) auto
  then have "supervise w ?d ?cmd 0 s = (Inr True, ?s')"
    by (simp add: supervise_ceiling)
  with h show "start_streaming w self s = (Inr True, ?s')"
    by (simp add: start_streaming_def)
next
  fix env
  show "retry_delay (init env) = 5"
    by (simp add: init_def)
next
  fix w :: world and self :: streamer and s :: state
  show "length (filter is_launch (trace (snd (start_streaming w self s))))
          \<le> length (filter is_launch (trace s)) + 999"
  proof (cases "derive_plan (quality self) (aspect_ratio self)")
    case (Inl e)
    then show ?thesis by (simp add: start_streaming_def)
  next
    case (Inr plan)
    then show ?thesis
      using supervise_launch_bound [of w "retry_delay self" "ffmpeg_cmd self plan" 0 s]
      by (simp add: start_streaming_def)
  qed
qed

theorem restart_loop_counts_witness:
  "start_streaming example_world (init (environ example_world)) empty_state =
     (Inr True,
      \<lparr> files = Map.empty,
        trace =
          [Run (ffmpeg_cmd (init (environ example_world))
                  \<lparr> width = 1280, height = 720, video_bitrate = ''2500k'', bufsize = ''5000k'' \<rparr>),
           Sleep 5,
           Run (ffmpeg_cmd (init (environ example_world))
                  \<lparr> width = 1280, height = 720, video_bitrate = ''2500k'', bufsize = ''5000k'' \<rparr>),
           Sleep 5,
           Run (ffmpeg_cmd (init (environ example_world))
                  \<lparr> width = 1280, height = 720, video_bitrate = ''2500k'', bufsize = ''5000k'' \<rparr>)] \<rparr>)
   \<and> start_streaming unattended_world (init (environ unattended_world)) empty_state =
       (Inr True,
        \<lparr> files = Map.empty,
          trace = concat (replicate 999
            [Run (ffmpeg_cmd (init (environ unattended_world))
                    \<lparr> width = 1280, height = 720, video_bitrate = ''2500k'', bufsize = ''5000k'' \<rparr>),
             Sleep 5]) \<rparr>)"
proof -
  note claim = restart_loop_counts
  let ?plan = "\<lparr> width = 1280, height = 720, video_bitrate = ''2500k'', bufsize = ''5000k'' \<rparr>"
  have plan: "derive_plan ''720p'' ''16:9'' = Inr ?plan"
    by code_simp
  have a: "start_streaming example_world (init (environ example_world)) empty_state =
     (Inr True,
      empty_state\<lparr>trace := trace empty_state
        @ concat (replicate 2 [Run (ffmpeg_cmd (init (environ example_world)) ?plan),
                               Sleep (retry_delay (init (environ example_world)))])
        @ [Run (ffmpeg_cmd (init (environ example_world)) ?plan)]\<rparr>)"
    using claim [THEN conjunct1, rule_format,
        where w = example_world and self = "init (environ example_world)" and s = empty_state
          and plan = ?plan and N = 2] plan
    by (simp add: init_def getenv_default_def example_world_def)
  have b: "start_streaming unattended_world (init (environ unattended_world)) empty_state =
     (Inr True,
      empty_state\<lparr>trace := trace empty_state
        @ concat (replicate 999 [Run (ffmpeg_cmd (init (environ unattended_world)) ?plan),
                                 Sleep (retry_delay (init (environ unattended_world)))])\<rparr>)"
    using claim [THEN conjunct2, THEN conjunct1, rule_format,
        where w = unattended_world and self = "init (environ unattended_world)"
          and s = empty_state and plan = ?plan] plan
    by (simp add: init_def getenv_default_def unattended_world_def example_world_def)
  have five: "retry_delay (init (environ example_world)) = 5"
             "retry_delay (init (environ unattended_world)) = 5"
    by (simp_all add: init_def)
  from a b show ?thesis
    by (simp add: five empty_state_def numeral_2_eq_2)
qed

subsection \<open>Values of the encoding plan\<close>

text \<open>
  Claim C3. Quality \<^verbatim>\<open>1080p\<close> with aspect ratio \<^verbatim>\<open>16:9\<close> gives width 1920, height 1080, video
  bitrate \<^verbatim>\<open>4500k\<close> and buffer size \<^verbatim>\<open>9000k\<close>; quality \<^verbatim>\<open>360p\<close> with \<^verbatim>\<open>9:16\<close> gives height 360
  and width 202. Whenever a plan is derived, from any quality and aspect ratio, its width is
  even. And for every quality that is a decimal number of at most 300 digits followed by
  \<^verbatim>\<open>p\<close>, with any aspect ratio, a plan is derived: its height is the number, and its width is
  the truncated product of height and ratio if that is even, and one more if it is odd.
  (The bound on the digits keeps the quotient inside the range of floats; beyond that range
  the division raises \<^verbatim>\<open>OverflowError\<close> and no plan is derived.)
\<close>

theorem encoding_plan_values:
  "derive_plan ''1080p'' ''16:9'' =
     Inr \<lparr> width = 1920, height = 1080, video_bitrate = ''4500k'', bufsize = ''9000k'' \<rparr>
   \<and> derive_plan ''360p'' ''9:16'' =
     Inr \<lparr> width = 202, height = 360, video_bitrate = ''800k'', bufsize = ''1600k'' \<rparr>
   \<and> (\<forall>q a plan. derive_plan q a = Inr plan \<longrightarrow> even (width plan))
   \<and> (\<forall>ds a.
        ds \<noteq> [] \<and> list_all is_digit ds \<and> length ds \<le> 300
        \<longrightarrow> (\<exists>w plan.
               raw_width (foldl (\<lambda>v c. 10 * v + digit_value c) 0 ds) a = Inr w \<and>
               derive_plan (ds @ ''p'') a = Inr plan \<and>
               height plan = foldl (\<lambda>v c. 10 * v + digit_value c) 0 ds \<and>
               width plan = (if even w then w else w + 1)))"
proof (intro conjI allI; (intro impI)?)
  show "derive_plan ''1080p'' ''16:9'' =
     Inr \<lparr> width = 1920, height = 1080, video_bitrate = ''4500k'', bufsize = ''9000k'' \<rparr>"
    by code_simp
next
  show "derive_plan ''360p'' ''9:16'' =
     Inr \<lparr> width = 202, height = 360, video_bitrate = ''800k'', bufsize = ''1600k'' \<rparr>"
    by code_simp
next
  fix q a plan
  assume "derive_plan q a = Inr plan"
  then have "derive_size q a = Inr (width plan, height plan)"
    by (rule derive_plan_size)
  then show "even (width plan)"
    by (rule derive_size_even)
next
  fix ds a
  assume h: "ds \<noteq> [] \<and> list_all is_digit ds \<and> length ds \<le> 300"
  let ?h = "foldl (\<lambda>v c. 10 * v + digit_value c) 0 ds"
  from h have digits: "list_all is_digit ds" by simp
  then have no_p: "filter (\<lambda>x. x \<noteq> CHR ''p'') ds = ds"
    using is_digit_not_special by (auto simp: list_all_iff filter_id_conv)
  from h have parsed: "py_int ds = Inr ?h"
    by (intro py_int_digits) simp_all
  from digits have "0 \<le> ?h" "?h < (0 + 1) * 10 ^ length ds"
    using digits_value_bounds [of ds 0] by simp_all
  moreover from h have "(10::int) ^ length ds \<le> 10 ^ 300"
    by (intro power_increasing) simp_all
  ultimately have bounds: "0 \<le> ?h" "?h < 10 ^ 300"
    by simp_all
  then obtain w where w: "raw_width ?h a = Inr w"
    using raw_width_total by blast
  have "derive_size (ds @ ''p'') a = Inr (round_even w, ?h)"
    by (simp add: derive_size_def py_in_char py_remove_def no_p parsed w)
  then obtain plan
    where "derive_plan (ds @ ''p'') a = Inr plan" "width plan = round_even w" "height plan = ?h"
    using derive_plan_of_size by blast
  with w show "\<exists>w plan.
               raw_width ?h a = Inr w \<and>
               derive_plan (ds @ ''p'') a = Inr plan \<and>
               height plan = ?h \<and>
               width plan = (if even w then w else w + 1)"
    by (auto simp: round_even_eq)
qed

theorem encoding_plan_values_witness:
  "even (width \<lparr> width = 1282, height = 721, video_bitrate = ''2500k'', bufsize = ''5000k'' \<rparr>)
   \<and> (\<exists>w plan.
        raw_width 721 ''16:9'' = Inr w \<and>
        derive_plan ''721p'' ''16:9'' = Inr plan \<and>
        height plan = 721 \<and>
        width plan = (if even w then w else w + 1))
   \<and> raw_width 721 ''16:9'' = Inr 1281
   \<and> derive_plan ''721p'' ''16:9'' =
       Inr \<lparr> width = 1282, height = 721, video_bitrate = ''2500k'', bufsize = ''5000k'' \<rparr>"
proof -
  note claim = encoding_plan_values
  have plan: "derive_plan ''721p'' ''16:9'' =
       Inr \<lparr> width = 1282, height = 721, video_bitrate = ''2500k'', bufsize = ''5000k'' \<rparr>"
    by code_simp
  have raw: "raw_width 721 ''16:9'' = Inr 1281"
    by code_simp
  have a: "even (width \<lparr> width = 1282, height = 721, video_bitrate = ''2500k'', bufsize = ''5000k'' \<rparr>)"
    using claim [THEN conjunct2, THEN conjunct2, THEN conjunct1, rule_format,
        where q = "''721p''" and a = "''16:9''"] plan
    by blast
  have b: "\<exists>w plan.
        raw_width 721 ''16:9'' = Inr w \<and>
        derive_plan ''721p'' ''16:9'' = Inr plan \<and>
        height plan = 721 \<and>
        width plan = (if even w then w else w + 1)"
    using claim [THEN conjunct2, THEN conjunct2, THEN conjunct2, rule_format,
        where ds = "''721''" and a = "''16:9''"]
    by (simp add: is_digit_def digit_value_def)
  from a b raw plan show ?thesis by blast
qed

subsection \<open>Quality strings that are not a number followed by p\<close>




subsection \<open>Errors during a download\<close>




subsection \<open>Exit status\<close>

text \<open>
  Claim C6. The exit status of \<^verbatim>\<open>main\<close> is 0 when \<^verbatim>\<open>run\<close> returns \<^verbatim>\<open>True\<close> or is left by a
  \<^verbatim>\<open>KeyboardInterrupt\<close>, and 1 in every other case (\<^verbatim>\<open>run\<close> returns \<^verbatim>\<open>False\<close>, or an error
  escapes from it). It is 1 when the stream key or the source URL is missing or empty, when
  \<^verbatim>\<open>download_video\<close> reports failure, and when the downloaded file is missing or smaller
  than 10,000 bytes. It is 0 when the file has been downloaded and probed, the encoding plan
  is derivable, and the supervision loop ends by the operator's interrupt of a session or
  by reaching 999 sessions. It is 1 when the file has been downloaded and probed and the
  derivation of the encoding plan raises an error, which nothing in \<^verbatim>\<open>run\<close> catches.
\<close>

theorem exit_status_of_main:
  "(\<forall>w. fst (main w) =
          (if fst (run w (init (environ w)) (initial_state w)) = Inr True
              \<or> fst (run w (init (environ w)) (initial_state w)) = Inl KeyboardInterrupt
           then 0 else 1))
   \<and> (\<forall>w. \<not> truthy (environ w ''YOUTUBE_STREAM_KEY'') \<or> \<not> truthy (environ w ''VIDEO_URL'')
        \<longrightarrow> main w = (1, initial_state w))
   \<and> (\<forall>w sa.
        truthy (environ w ''YOUTUBE_STREAM_KEY'') \<and> truthy (environ w ''VIDEO_URL'') \<and>
        download_video w (init (environ w)) (initial_state w) = (Inr False, sa)
        \<longrightarrow> main w = (1, sa))
   \<and> (\<forall>w sa.
        truthy (environ w ''YOUTUBE_STREAM_KEY'') \<and> truthy (environ w ''VIDEO_URL'') \<and>
        download_video w (init (environ w)) (initial_state w) = (Inr True, sa) \<and>
        (files sa ''video.mp4'' = None \<or> (\<exists>n<10000. files sa ''video.mp4'' = Some n))
        \<longrightarrow> main w = (1, sa))
   \<and> (\<forall>w sa sb n duration plan N.
        truthy (environ w ''YOUTUBE_STREAM_KEY'') \<and> truthy (environ w ''VIDEO_URL'') \<and>
        download_video w (init (environ w)) (initial_state w) = (Inr True, sa) \<and>
        files sa ''video.mp4'' = Some n \<and> 10000 \<le> n \<and>
        get_video_duration w (init (environ w)) sa = (Inr duration, sb) \<and>
        derive_plan (quality (init (environ w))) (aspect_ratio (init (environ w))) = Inr plan \<and>
        N \<le> 999 \<and>
        (\<forall>i<N. ffmpeg_result w i \<noteq> Inl KeyboardInterrupt \<and> sleep_result w i = None) \<and>
        (N < 999 \<longrightarrow> ffmpeg_result w N = Inl KeyboardInterrupt)
        \<longrightarrow> fst (main w) = 0)
   \<and> (\<forall>w sa sb n duration e.
        truthy (environ w ''YOUTUBE_STREAM_KEY'') \<and> truthy (environ w ''VIDEO_URL'') \<and>
        download_video w (init (environ w)) (initial_state w) = (Inr True, sa) \<and>
        files sa ''video.mp4'' = Some n \<and> 10000 \<le> n \<and>
        get_video_duration w (init (environ w)) sa = (Inr duration, sb) \<and>
        derive_plan (quality (init (environ w))) (aspect_ratio (init (environ w))) = Inl e \<and>
        is_Exception e
        \<longrightarrow> main w = (1, sb))"
proof (intro conjI allI; (intro impI)?)
  fix w :: world
  show "fst (main w) =
          (if fst (run w (init (environ w)) (initial_state w)) = Inr True
              \<or> fst (run w (init (environ w)) (initial_state w)) = Inl KeyboardInterrupt
           then 0 else 1)"
    by (cases "run w (init (environ w)) (initial_state w)")
       (auto simp: main_def split: sum.splits)
next
  fix w :: world
  assume "\<not> truthy (environ w ''YOUTUBE_STREAM_KEY'') \<or> \<not> truthy (environ w ''VIDEO_URL'')"
  then have "run w (init (environ w)) (initial_state w) = (Inr False, initial_state w)"
    by (auto simp: run_def init_def)
  then show "main w = (1, initial_state w)"
    by (simp add: main_def)
next
  fix w :: world and sa
  assume "truthy (environ w ''YOUTUBE_STREAM_KEY'') \<and> truthy (environ w ''VIDEO_URL'') \<and>
        download_video w (init (environ w)) (initial_state w) = (Inr False, sa)"
  then have "run w (init (environ w)) (initial_state w) = (Inr False, sa)"
    by (simp add: run_def) (simp add: init_def)
  then show "main w = (1, sa)"
    by (simp add: main_def)
next
  fix w :: world and sa
  assume h: "truthy (environ w ''YOUTUBE_STREAM_KEY'') \<and> truthy (environ w ''VIDEO_URL'') \<and>
        download_video w (init (environ w)) (initial_state w) = (Inr True, sa) \<and>
        (files sa ''video.mp4'' = None \<or> (\<exists>n<10000. files sa ''video.mp4'' = Some n))"
  have vf: "video_file (init (environ w)) = ''video.mp4''"
    and cfg: "stream_key (init (environ w)) = environ w ''YOUTUBE_STREAM_KEY''"
             "video_url (init (environ w)) = environ w ''VIDEO_URL''"
    by (simp_all add: init_def)
  from h have "run w (init (environ w)) (initial_state w) = (Inr False, sa)"
    by (auto simp: run_def vf cfg exists_file_def getsize_def)
  then show "main w = (1, sa)"
    by (simp add: main_def)
next
  fix w :: world and sa sb n duration plan N
  assume h: "truthy (environ w ''YOUTUBE_STREAM_KEY'') \<and> truthy (environ w ''VIDEO_URL'') \<and>
        download_video w (init (environ w)) (initial_state w) = (Inr True, sa) \<and>
        files sa ''video.mp4'' = Some n \<and> 10000 \<le> n \<and>
        get_video_duration w (init (environ w)) sa = (Inr duration, sb) \<and>
        derive_plan (quality (init (environ w))) (aspect_ratio (init (environ w))) = Inr plan \<and>
        N \<le> 999 \<and>
        (\<forall>i<N. ffmpeg_result w i \<noteq> Inl KeyboardInterrupt \<and> sleep_result w i = None) \<and>
        (N < 999 \<longrightarrow> ffmpeg_result w N = Inl KeyboardInterrupt)"
  have vf: "video_file (init (environ w)) = ''video.mp4''"
    and cfg: "stream_key (init (environ w)) = environ w ''YOUTUBE_STREAM_KEY''"
             "video_url (init (environ w)) = environ w ''VIDEO_URL''"
    by (simp_all add: init_def)
  from h have "fst (start_streaming w (init (environ w)) sb) = Inr True"
    by (intro start_streaming_deliberate_stop [where plan = plan and N = N]) auto
  then obtain sc where "start_streaming w (init (environ w)) sb = (Inr True, sc)"
    by (metis prod.collapse)
  with h have "run w (init (environ w)) (initial_state w) = (Inr True, sc)"
    using run_after_download [of "init (environ w)" w "initial_state w" sa n]
    by (simp add: vf cfg)
  then show "fst (main w) = 0"
    by (simp add: main_def)
next
  fix w :: world and sa sb n duration e
  assume h: "truthy (environ w ''YOUTUBE_STREAM_KEY'') \<and> truthy (environ w ''VIDEO_URL'') \<and>
        download_video w (init (environ w)) (initial_state w) = (Inr True, sa) \<and>
        files sa ''video.mp4'' = Some n \<and> 10000 \<le> n \<and>
        get_video_duration w (init (environ w)) sa = (Inr duration, sb) \<and>
        derive_plan (quality (init (environ w))) (aspect_ratio (init (environ w))) = Inl e \<and>
        is_Exception e"
  have vf: "video_file (init (environ w)) = ''video.mp4''"
    and cfg: "stream_key (init (environ w)) = environ w ''YOUTUBE_STREAM_KEY''"
             "video_url (init (environ w)) = environ w ''VIDEO_URL''"
    by (simp_all add: init_def)
  from h have "start_streaming w (init (environ w)) sb = (Inl e, sb)"
    by (simp add: start_streaming_def)
  with h have "run w (init (environ w)) (initial_state w) = (Inl e, sb)"
    using run_after_download [of "init (environ w)" w "initial_state w" sa n]
    by (simp add: vf cfg)
  moreover from h have "e \<noteq> KeyboardInterrupt"
    by auto
  ultimately show "main w = (1, sb)"
    by (simp add: main_def)
qed

theorem exit_status_of_main_witness:
  "main keyless_world = (1, \<lparr> files = Map.empty, trace = [] \<rparr>)
   \<and> main offline_world =
       (1, \<lparr> files = Map.empty, trace = [HttpGet ''http://example.com/v.mp4'' []] \<rparr>)
   \<and> main (direct_world 9999) =
       (1, \<lparr> files = [''video.mp4'' \<mapsto> 9999],
             trace = [HttpGet ''http://example.com/v.mp4'' []] \<rparr>)
   \<and> fst (main (direct_world 20000)) = 0
   \<and> main bad_quality_world =
       (1, \<lparr> files = [''video.mp4'' \<mapsto> 20000],
             trace = [HttpGet ''http://example.com/v.mp4'' [],
                      Run [''ffprobe'', ''-v'', ''error'', ''-show_entries'',
                           ''format=duration'', ''-of'',
                           ''default=noprint_wrappers=1:nokey=1'', ''video.mp4'']] \<rparr>)"
proof -
  note claim = exit_status_of_main
  note worlds = keyless_world_def offline_world_def bad_quality_world_def direct_world_def
    example_world_def plain_response_def ok_process_def bytes_def initial_state_def
  note download = download_video_def is_google_drive_url_def init_def getenv_default_def
    format_opt_def download_direct_def try_except_def direct_body_def emit_def
    content_length_int_def stream_to_file_def
  have a: "main keyless_world = (1, \<lparr> files = Map.empty, trace = [] \<rparr>)"
    using claim [THEN conjunct2, THEN conjunct1, rule_format, of keyless_world]
    by (simp add: worlds)
  have b: "main offline_world =
       (1, \<lparr> files = Map.empty, trace = [HttpGet ''http://example.com/v.mp4'' []] \<rparr>)"
    using claim [THEN conjunct2, THEN conjunct2, THEN conjunct1, rule_format,
        where w = offline_world
          and sa = "\<lparr> files = Map.empty, trace = [HttpGet ''http://example.com/v.mp4'' []] \<rparr>"]
    by (simp add: worlds download)
  have c: "main (direct_world 9999) =
       (1, \<lparr> files = [''video.mp4'' \<mapsto> 9999],
             trace = [HttpGet ''http://example.com/v.mp4'' []] \<rparr>)"
    using claim [THEN conjunct2, THEN conjunct2, THEN conjunct2, THEN conjunct1, rule_format,
        where w = "direct_world 9999"
          and sa = "\<lparr> files = [''video.mp4'' \<mapsto> 9999],
                      trace = [HttpGet ''http://example.com/v.mp4'' []] \<rparr>"]
    by (simp add: worlds download)
  have plan: "derive_plan ''720p'' ''16:9'' =
      Inr \<lparr> width = 1280, height = 720, video_bitrate = ''2500k'', bufsize = ''5000k'' \<rparr>"
    by code_simp
  have d: "fst (main (direct_world 20000)) = 0"
    using claim [THEN conjunct2, THEN conjunct2, THEN conjunct2, THEN conjunct2, THEN conjunct1,
        rule_format,
        where w = "direct_world 20000"
          and sa = "\<lparr> files = [''video.mp4'' \<mapsto> 20000],
                      trace = [HttpGet ''http://example.com/v.mp4'' []] \<rparr>"
          and sb = "\<lparr> files = [''video.mp4'' \<mapsto> 20000],
                      trace = [HttpGet ''http://example.com/v.mp4'' [],
                               Run [''ffprobe'', ''-v'', ''error'', ''-show_entries'',
                                    ''format=duration'', ''-of'',
                                    ''default=noprint_wrappers=1:nokey=1'', ''video.mp4'']] \<rparr>"
          and n = 20000 and duration = "Some ''12.5''"
          and plan = "\<lparr> width = 1280, height = 720, video_bitrate = ''2500k'', bufsize = ''5000k'' \<rparr>"
          and N = 2] plan
    by (simp add: worlds download get_video_duration_def probe_body_def)
  have bad: "derive_plan ''hdp'' ''16:9'' = Inl ValueError"
    by code_simp
  have e: "main bad_quality_world =
       (1, \<lparr> files = [''video.mp4'' \<mapsto> 20000],
             trace = [HttpGet ''http://example.com/v.mp4'' [],
                      Run [''ffprobe'', ''-v'', ''error'', ''-show_entries'',
                           ''format=duration'', ''-of'',
                           ''default=noprint_wrappers=1:nokey=1'', ''video.mp4'']] \<rparr>)"
    using claim [THEN conjunct2, THEN conjunct2, THEN conjunct2, THEN conjunct2, THEN conjunct2,
        rule_format,
        where w = bad_quality_world
          and sa = "\<lparr> files = [''video.mp4'' \<mapsto> 20000],
                      trace = [HttpGet ''http://example.com/v.mp4'' []] \<rparr>"
          and sb = "\<lparr> files = [''video.mp4'' \<mapsto> 20000],
                      trace = [HttpGet ''http://example.com/v.mp4'' [],
                               Run [''ffprobe'', ''-v'', ''error'', ''-show_entries'',
                                    ''format=duration'', ''-of'',
                                    ''default=noprint_wrappers=1:nokey=1'', ''video.mp4'']] \<rparr>"
          and n = 20000 and duration = "Some ''12.5''" and e = ValueError] bad
    by (simp add: worlds download get_video_duration_def probe_body_def)
  from a b c d e show ?thesis by simp
qed

subsection \<open>Extraction of the file identifier\<close>

text \<open>
  Claim C7. The four patterns are tried in their order, and the identifier of the first one
  that matches is returned: if pattern \<open>i\<close> matches the URL, its leftmost occurrence being
  the literal after \<open>pre\<close> followed by the identifier \<open>fid\<close> (a longest run of identifier
  characters), and no earlier pattern of the list matches the URL anywhere, then
  \<^verbatim>\<open>extract_gdrive_id\<close> returns exactly \<open>fid\<close>. It returns nothing exactly when none of the
  four patterns matches the URL anywhere.
\<close>

theorem extract_gdrive_id_first_matching_pattern:
  "(\<forall>url i pre fid suf.
      i < length patterns \<and>
      url = pre @ (patterns ! i) @ fid @ suf \<and>
      fid \<noteq> [] \<and> (\<forall>c\<in>set fid. id_char c) \<and> (suf = [] \<or> \<not> id_char (hd suf)) \<and>
      (\<forall>k<length pre. \<not> matches_at (patterns ! i) id_char url k) \<and>
      (\<forall>j<i. \<forall>k<length url. \<not> matches_at (patterns ! j) id_char url k)
      \<longrightarrow> extract_gdrive_id url = Some fid)
   \<and> (\<forall>url.
        extract_gdrive_id url = None \<longleftrightarrow>
        (\<forall>j<length patterns. \<forall>k<length url. \<not> matches_at (patterns ! j) id_char url k))
   \<and> patterns = [''/file/d/'', ''id='', ''/open?id='', ''/d/'']"
proof (intro conjI allI; (intro impI)?)
  fix url i pre fid suf
  assume h: "i < length patterns \<and>
      url = pre @ (patterns ! i) @ fid @ suf \<and>
      fid \<noteq> [] \<and> (\<forall>c\<in>set fid. id_char c) \<and> (suf = [] \<or> \<not> id_char (hd suf)) \<and>
      (\<forall>k<length pre. \<not> matches_at (patterns ! i) id_char url k) \<and>
      (\<forall>j<i. \<forall>k<length url. \<not> matches_at (patterns ! j) id_char url k)"
  then have url: "url = pre @ (patterns ! i) @ fid @ suf"
    and fid: "fid \<noteq> []" "\<forall>c\<in>set fid. id_char c" "suf = [] \<or> \<not> id_char (hd suf)"
    and leftmost: "\<forall>k<length pre. \<not> matches_at (patterns ! i) id_char url k"
    by blast+
  have found: "re_search (patterns ! i) id_char url = Some fid"
    by (rule re_search_leftmost [OF url fid leftmost])
  from h have "\<forall>j<i. \<forall>k<length url. \<not> matches_at (patterns ! j) id_char url k"
    by blast
  then have earlier: "\<forall>j<i. re_search (patterns ! j) id_char url = None"
    by (simp only: re_search_None_iff)
  from h have "i < length patterns"
    by blast
  then show "extract_gdrive_id url = Some fid"
    unfolding extract_gdrive_id_def using found earlier by (rule first_match_index)
next
  fix url
  show "extract_gdrive_id url = None \<longleftrightarrow>
        (\<forall>j<length patterns. \<forall>k<length url. \<not> matches_at (patterns ! j) id_char url k)"
    by (simp only: extract_gdrive_id_def first_match_None_iff re_search_None_iff)
next
  show "patterns = [''/file/d/'', ''id='', ''/open?id='', ''/d/'']"
    by (simp add: patterns_def)
qed

theorem extract_gdrive_id_first_matching_pattern_witness:
  "extract_gdrive_id ''https://drive.google.com/file/d/1AbC_d-9/view?usp=sharing'' = Some ''1AbC_d-9''
   \<and> extract_gdrive_id ''https://drive.google.com/open?id=1AbC_d-9'' = Some ''1AbC_d-9''
   \<and> extract_gdrive_id ''https://docs.google.com/document/d/1AbC_d-9/edit'' = Some ''1AbC_d-9''
   \<and> extract_gdrive_id ''https://drive.google.com/'' = None"
proof -
  note claim = extract_gdrive_id_first_matching_pattern
  note eval = patterns_def matches_at_def id_char_def All_less_Suc2 numeral_nat
  have a: "extract_gdrive_id ''https://drive.google.com/file/d/1AbC_d-9/view?usp=sharing''
             = Some ''1AbC_d-9''"
    using claim [THEN conjunct1, rule_format,
        where url = "''https://drive.google.com/file/d/1AbC_d-9/view?usp=sharing''" and i = 0
          and pre = "''https://drive.google.com''" and fid = "''1AbC_d-9''"
          and suf = "''/view?usp=sharing''"]
    by (simp add: eval)
  have b: "extract_gdrive_id ''https://drive.google.com/open?id=1AbC_d-9'' = Some ''1AbC_d-9''"
    using claim [THEN conjunct1, rule_format,
        where url = "''https://drive.google.com/open?id=1AbC_d-9''" and i = 1
          and pre = "''https://drive.google.com/open?''" and fid = "''1AbC_d-9''"
          and suf = "[]"]
    by (simp add: eval)
  have c: "extract_gdrive_id ''https://docs.google.com/document/d/1AbC_d-9/edit'' = Some ''1AbC_d-9''"
    using claim [THEN conjunct1, rule_format,
        where url = "''https://docs.google.com/document/d/1AbC_d-9/edit''" and i = 3
          and pre = "''https://docs.google.com/document''" and fid = "''1AbC_d-9''"
          and suf = "''/edit''"]
    by (simp add: eval)
  have d: "extract_gdrive_id ''https://drive.google.com/'' = None"
    using claim [THEN conjunct2, THEN conjunct1, rule_format,
        where url = "''https://drive.google.com/''"]
    by (simp add: eval)
  from a b c d show ?thesis by simp
qed

subsection \<open>The confirmation token\<close>




subsection \<open>The boundary of exactly 10,000 bytes\<close>



subsection \<open>URL classification\<close>

text \<open>
  Claim C10. \<^verbatim>\<open>is_google_drive_url\<close> holds exactly for the URLs that contain
  \<^verbatim>\<open>drive.google.com\<close> or \<^verbatim>\<open>docs.google.com\<close> somewhere in the whole string, whatever the
  host of the URL is. For such a URL \<^verbatim>\<open>download_video\<close> takes the large-file path: it
  extracts the identifier, fails at once when there is none, and otherwise calls
  \<^verbatim>\<open>download_from_gdrive\<close>; it never makes the direct request. A URL with neither substring
  is downloaded directly.
\<close>

theorem classification_by_substring_of_whole_url:
  "(\<forall>url. is_google_drive_url url \<longleftrightarrow>
            (\<exists>pre suf. url = pre @ ''drive.google.com'' @ suf) \<or>
            (\<exists>pre suf. url = pre @ ''docs.google.com'' @ suf))
   \<and> (\<forall>w self s url.
        video_url self = Some url \<and>
        ((\<exists>pre suf. url = pre @ ''drive.google.com'' @ suf) \<or>
         (\<exists>pre suf. url = pre @ ''docs.google.com'' @ suf))
        \<longrightarrow> download_video w self s =
              (case extract_gdrive_id url of
                 None \<Rightarrow> (Inr False, s)
               | Some file_id \<Rightarrow> download_from_gdrive w file_id (video_file self) s))
   \<and> (\<forall>w self s url.
        video_url self = Some url \<and>
        \<not> (\<exists>pre suf. url = pre @ ''drive.google.com'' @ suf) \<and>
        \<not> (\<exists>pre suf. url = pre @ ''docs.google.com'' @ suf)
        \<longrightarrow> download_video w self s = download_direct w url (video_file self) s)"
proof (intro conjI allI; (intro impI)?)
  fix url
  show "is_google_drive_url url \<longleftrightarrow>
          (\<exists>pre suf. url = pre @ ''drive.google.com'' @ suf) \<or>
          (\<exists>pre suf. url = pre @ ''docs.google.com'' @ suf)"
    by (simp only: is_google_drive_url_def py_in_iff)
next
  fix w :: world and self :: streamer and s :: state and url :: string
  assume h: "video_url self = Some url \<and>
        ((\<exists>pre suf. url = pre @ ''drive.google.com'' @ suf) \<or>
         (\<exists>pre suf. url = pre @ ''docs.google.com'' @ suf))"
  then have g: "is_google_drive_url url"
    by (simp only: is_google_drive_url_def py_in_iff)
  show "download_video w self s =
              (case extract_gdrive_id url of
                 None \<Rightarrow> (Inr False, s)
               | Some file_id \<Rightarrow> download_from_gdrive w file_id (video_file self) s)"
  proof (cases "extract_gdrive_id url")
    case None
    with h g show ?thesis by (simp add: download_video_def)
  next
    case (Some file_id)
    then have "extract_gdrive_id url \<noteq> None"
      by simp
    then have "truthy (extract_gdrive_id url)"
      by (rule truthy_extract_gdrive_id [THEN iffD2])
    with Some h g show ?thesis by (simp add: download_video_def format_opt_def)
  qed
next
  fix w :: world and self :: streamer and s :: state and url :: string
  assume h: "video_url self = Some url \<and>
        \<not> (\<exists>pre suf. url = pre @ ''drive.google.com'' @ suf) \<and>
        \<not> (\<exists>pre suf. url = pre @ ''docs.google.com'' @ suf)"
  then have "\<not> is_google_drive_url url"
    by (simp only: is_google_drive_url_def py_in_iff) simp
  with h show "download_video w self s = download_direct w url (video_file self) s"
    by (simp add: download_video_def)
qed

theorem classification_by_substring_of_whole_url_witness:
  "is_google_drive_url ''https://example.com/v.mp4?ref=drive.google.com''
   \<and> download_video example_world
        (init [''YOUTUBE_STREAM_KEY'' \<mapsto> ''abcd-efgh-ijkl-mnop'',
               ''VIDEO_URL'' \<mapsto> ''https://example.com/v.mp4?ref=drive.google.com''])
        empty_state = (Inr False, empty_state)
   \<and> download_video example_world
        (init [''YOUTUBE_STREAM_KEY'' \<mapsto> ''abcd-efgh-ijkl-mnop'',
               ''VIDEO_URL'' \<mapsto> ''https://example.com/v?id=abc&from=docs.google.com''])
        empty_state = download_from_gdrive example_world ''abc'' ''video.mp4'' empty_state
   \<and> download_video example_world
        (init [''YOUTUBE_STREAM_KEY'' \<mapsto> ''abcd-efgh-ijkl-mnop'',
               ''VIDEO_URL'' \<mapsto> ''http://example.com/v.mp4''])
        empty_state = download_direct example_world ''http://example.com/v.mp4'' ''video.mp4'' empty_state"
proof -
  note claim = classification_by_substring_of_whole_url
  have in1: "\<exists>pre suf. ''https://example.com/v.mp4?ref=drive.google.com'' = pre @ ''drive.google.com'' @ suf"
    by (intro exI [of _ "''https://example.com/v.mp4?ref=''"] exI [of _ "[]"]) simp
  have in2: "\<exists>pre suf. ''https://example.com/v?id=abc&from=docs.google.com'' = pre @ ''docs.google.com'' @ suf"
    by (intro exI [of _ "''https://example.com/v?id=abc&from=''"] exI [of _ "[]"]) simp
  have out3: "\<not> (\<exists>pre suf. ''http://example.com/v.mp4'' = pre @ ''drive.google.com'' @ suf)"
             "\<not> (\<exists>pre suf. ''http://example.com/v.mp4'' = pre @ ''docs.google.com'' @ suf)"
    unfolding py_in_iff [symmetric] by simp_all
  have id1: "extract_gdrive_id ''https://example.com/v.mp4?ref=drive.google.com'' = None"
    by (simp add: extract_gdrive_id_def patterns_def match_here_def id_char_def)
  have id2: "extract_gdrive_id ''https://example.com/v?id=abc&from=docs.google.com'' = Some ''abc''"
    by (simp add: extract_gdrive_id_def patterns_def match_here_def id_char_def)
  have a: "is_google_drive_url ''https://example.com/v.mp4?ref=drive.google.com''"
    using claim [THEN conjunct1, rule_format, of "''https://example.com/v.mp4?ref=drive.google.com''"] in1
    by simp
  have b: "download_video example_world
        (init [''YOUTUBE_STREAM_KEY'' \<mapsto> ''abcd-efgh-ijkl-mnop'',
               ''VIDEO_URL'' \<mapsto> ''https://example.com/v.mp4?ref=drive.google.com''])
        empty_state = (Inr False, empty_state)"
    using claim [THEN conjunct2, THEN conjunct1, rule_format,
        where url = "''https://example.com/v.mp4?ref=drive.google.com''" and w = example_world
          and s = empty_state
          and self = "init [''YOUTUBE_STREAM_KEY'' \<mapsto> ''abcd-efgh-ijkl-mnop'',
               ''VIDEO_URL'' \<mapsto> ''https://example.com/v.mp4?ref=drive.google.com'']"] in1
    by (simp add: id1 init_def)
  have c: "download_video example_world
        (init [''YOUTUBE_STREAM_KEY'' \<mapsto> ''abcd-efgh-ijkl-mnop'',
               ''VIDEO_URL'' \<mapsto> ''https://example.com/v?id=abc&from=docs.google.com''])
        empty_state = download_from_gdrive example_world ''abc'' ''video.mp4'' empty_state"
    using claim [THEN conjunct2, THEN conjunct1, rule_format,
        where url = "''https://example.com/v?id=abc&from=docs.google.com''" and w = example_world
          and s = empty_state
          and self = "init [''YOUTUBE_STREAM_KEY'' \<mapsto> ''abcd-efgh-ijkl-mnop'',
               ''VIDEO_URL'' \<mapsto> ''https://example.com/v?id=abc&from=docs.google.com'']"] in2
    by (simp add: id2 init_def)
  have d: "download_video example_world
        (init [''YOUTUBE_STREAM_KEY'' \<mapsto> ''abcd-efgh-ijkl-mnop'',
               ''VIDEO_URL'' \<mapsto> ''http://example.com/v.mp4''])
        empty_state = download_direct example_world ''http://example.com/v.mp4'' ''video.mp4'' empty_state"
    using claim [THEN conjunct2, THEN conjunct2, rule_format,
        where url = "''http://example.com/v.mp4''" and w = example_world
          and s = empty_state
          and self = "init [''YOUTUBE_STREAM_KEY'' \<mapsto> ''abcd-efgh-ijkl-mnop'',
               ''VIDEO_URL'' \<mapsto> ''http://example.com/v.mp4'']"] out3
    by (simp add: init_def)
  from a b c d show ?thesis by simp
qed

end
